theory Spec2Isabelle
  imports Main "HOL-Library.Multiset"
begin

section \<open>Data model\<close>

text \<open>
  The interfaces of the React component (\<open>Person\<close>, \<open>GettyMedia\<close>,
  \<open>PersonGettyResults\<close>, \<open>SelectedItem\<close>) become records. Field names that
  two interfaces share, or that clash with a HOL constant, carry a prefix:
  \<open>GettyMedia.id\<close> is \<open>gm_id\<close> and \<open>SelectedItem.compUrl\<close> is \<open>itemCompUrl\<close>.
  The union type \<open>'video' | 'photo'\<close> is a datatype. A \<open>personIndex\<close> is an array
  index, a natural number.
\<close>

record Person =
  name :: string
  searchTerm :: string

record GettyMedia =
  gm_id :: string
  title :: string
  thumbnailUrl :: string
  previewUrl :: string
  compUrl :: string
  dateCreated :: string

record PersonGettyResults =
  person :: Person
  videos :: "GettyMedia list"
  photos :: "GettyMedia list"

datatype MediaType = Video | Photo

record SelectedItem =
  personIndex :: nat
  personName :: string
  mediaId :: string
  mediaType :: MediaType
  itemCompUrl :: string
  fileName :: string

text \<open>The five collection toggles of the \<open>collections\<close> state object.\<close>

record Collections =
  billboard :: bool
  wwd :: bool
  rollingStone :: bool
  hollywoodReporter :: bool
  variety :: bool

text \<open>
  The state of the component: one field per \<open>useState\<close> hook that the handlers
  below read or write. \<open>accessToken\<close> is \<open>string | null\<close>.
\<close>

record AppState =
  script :: string
  shotlist :: "Person list"
  gettyResults :: "PersonGettyResults list"
  currentStep :: nat
  isLoading :: bool
  error :: string
  accessToken :: "string option"
  exportText :: string
  selectedItems :: "SelectedItem list"
  isDownloading :: bool
  collections :: Collections
  usePMCARC :: bool

text \<open>The template literal \<open>${type}\<close> of a media type.\<close>

fun mediaTypeStr :: "MediaType \<Rightarrow> string" where
  "mediaTypeStr Video = ''video''"
| "mediaTypeStr Photo = ''photo''"

section \<open>Selection ledger\<close>

text \<open>
  Each handler passes an updater \<open>prev => ...\<close> to \<open>setSelectedItems\<close>; the
  updater is modelled as a function on the list of selected items.

  \<open>Array.prototype.findIndex\<close> returns the index of the first element that
  satisfies the predicate, and \<open>-1\<close> when there is none.
\<close>

fun findIndex :: "('a \<Rightarrow> bool) \<Rightarrow> 'a list \<Rightarrow> int" where
  "findIndex P [] = -1"
| "findIndex P (x # xs) =
     (if P x then 0
      else (let r = findIndex P xs in if r < 0 then -1 else r + 1))"

text \<open>
  \<open>prev.filter((_, index) => f(index))\<close>: a filter whose callback sees the
  index of the element; \<open>n\<close> is the index of the head of the list.
\<close>

fun filterIndexed :: "nat \<Rightarrow> ('a \<Rightarrow> nat \<Rightarrow> bool) \<Rightarrow> 'a list \<Rightarrow> 'a list" where
  "filterIndexed n f [] = []"
| "filterIndexed n f (x # xs) =
     (if f x n then x # filterIndexed (Suc n) f xs else filterIndexed (Suc n) f xs)"

definition fileNameOf :: "string \<Rightarrow> MediaType \<Rightarrow> string" where
  "fileNameOf i t = i @ ''.'' @ (if t = Video then ''mp4'' else ''jpg'')"

definition newSelection :: "nat \<Rightarrow> string \<Rightarrow> GettyMedia \<Rightarrow> MediaType \<Rightarrow> SelectedItem" where
  "newSelection pIndex pName media t =
     \<lparr> personIndex = pIndex, personName = pName, mediaId = gm_id media,
       mediaType = t, itemCompUrl = compUrl media,
       fileName = fileNameOf (gm_id media) t \<rparr>"

definition toggleSelection ::
  "nat \<Rightarrow> string \<Rightarrow> GettyMedia \<Rightarrow> MediaType \<Rightarrow> SelectedItem list \<Rightarrow> SelectedItem list" where
  "toggleSelection pIndex pName media t prev =
     (let existingIndex =
            findIndex (\<lambda>item. personIndex item = pIndex \<and> mediaId item = gm_id media) prev
      in if existingIndex \<ge> 0
         then filterIndexed 0 (\<lambda>_ index. int index \<noteq> existingIndex) prev
         else prev @ [newSelection pIndex pName media t])"

definition isSelected :: "SelectedItem list \<Rightarrow> nat \<Rightarrow> string \<Rightarrow> bool" where
  "isSelected items pIndex mId =
     list_ex (\<lambda>item. personIndex item = pIndex \<and> mediaId item = mId) items"

definition selectAllVideos ::
  "nat \<Rightarrow> string \<Rightarrow> GettyMedia list \<Rightarrow> SelectedItem list \<Rightarrow> SelectedItem list" where
  "selectAllVideos pIndex pName vids prev =
     (let videoSelections = map (\<lambda>video. newSelection pIndex pName video Video) vids;
          filtered = filter (\<lambda>item. \<not> (personIndex item = pIndex \<and> mediaType item = Video)) prev
      in filtered @ videoSelections)"

definition selectAllPhotos ::
  "nat \<Rightarrow> string \<Rightarrow> GettyMedia list \<Rightarrow> SelectedItem list \<Rightarrow> SelectedItem list" where
  "selectAllPhotos pIndex pName phs prev =
     (let photoSelections = map (\<lambda>photo. newSelection pIndex pName photo Photo) phs;
          filtered = filter (\<lambda>item. \<not> (personIndex item = pIndex \<and> mediaType item = Photo)) prev
      in filtered @ photoSelections)"

definition deselectAllVideos :: "nat \<Rightarrow> SelectedItem list \<Rightarrow> SelectedItem list" where
  "deselectAllVideos pIndex prev =
     filter (\<lambda>item. \<not> (personIndex item = pIndex \<and> mediaType item = Video)) prev"

definition deselectAllPhotos :: "nat \<Rightarrow> SelectedItem list \<Rightarrow> SelectedItem list" where
  "deselectAllPhotos pIndex prev =
     filter (\<lambda>item. \<not> (personIndex item = pIndex \<and> mediaType item = Photo)) prev"

text \<open>
  The global operations walk \<open>gettyResults.forEach((result, index) => ...)\<close> and
  push one selection per item of the kind; \<open>n\<close> is the index of the head.
\<close>

fun allSelectionsFrom ::
  "MediaType \<Rightarrow> nat \<Rightarrow> PersonGettyResults list \<Rightarrow> SelectedItem list" where
  "allSelectionsFrom t n [] = []"
| "allSelectionsFrom t n (result # rest) =
     map (\<lambda>m. newSelection n (name (person result)) m t)
         (if t = Video then videos result else photos result)
     @ allSelectionsFrom t (Suc n) rest"

definition selectAllVideosGlobal ::
  "PersonGettyResults list \<Rightarrow> SelectedItem list \<Rightarrow> SelectedItem list" where
  "selectAllVideosGlobal results prev =
     (let allVideoSelections = allSelectionsFrom Video 0 results;
          filtered = filter (\<lambda>item. mediaType item \<noteq> Video) prev
      in filtered @ allVideoSelections)"

definition deselectAllVideosGlobal :: "SelectedItem list \<Rightarrow> SelectedItem list" where
  "deselectAllVideosGlobal prev = filter (\<lambda>item. mediaType item \<noteq> Video) prev"

definition selectAllPhotosGlobal ::
  "PersonGettyResults list \<Rightarrow> SelectedItem list \<Rightarrow> SelectedItem list" where
  "selectAllPhotosGlobal results prev =
     (let allPhotoSelections = allSelectionsFrom Photo 0 results;
          filtered = filter (\<lambda>item. mediaType item \<noteq> Photo) prev
      in filtered @ allPhotoSelections)"

definition deselectAllPhotosGlobal :: "SelectedItem list \<Rightarrow> SelectedItem list" where
  "deselectAllPhotosGlobal prev = filter (\<lambda>item. mediaType item \<noteq> Photo) prev"

section \<open>Reset\<close>

definition handleClear :: "AppState \<Rightarrow> AppState" where
  "handleClear st =
     st\<lparr> script := [], shotlist := [], gettyResults := [], exportText := [],
         currentStep := 1, error := [], selectedItems := [] \<rparr>"

section \<open>Search aggregator\<close>

text \<open>
  A record of a provider response: \<open>id\<close>, \<open>title\<close>, \<open>date_created\<close> and the
  list \<open>display_sizes\<close> of named renditions, which the code reads with \<open>?.\<close>
  and which may therefore be absent. The fields are strings, as the interface
  \<open>GettyMedia\<close> types the values copied from them.
\<close>

record DisplaySize =
  ds_name :: string
  uri :: string

record ProviderRecord =
  rec_id :: string
  rec_title :: string
  display_sizes :: "DisplaySize list option"
  date_created :: string

text \<open>
  What \<open>response.json()\<close> yields: an object that may carry \<open>videos\<close> and
  \<open>images\<close> arrays, any other JSON object (the payload of a failure), or a body
  that is not JSON, on which \<open>json()\<close> throws with the given message.
  \<open>response.ok\<close> is the status being in the range 200 to 299.
\<close>

datatype Body =
    SearchData "ProviderRecord list option" "ProviderRecord list option"
  | ErrorPayload string
  | NotJson string

record Response =
  status :: nat
  body :: Body

datatype FetchResult = Rejected string | Resolved Response

record Request =
  req_path :: string
  req_params :: "(string \<times> string) list"
  req_authorization :: string

text \<open>
  The network is outside the program. A call to \<open>fetch\<close> either rejects with a
  message or resolves with a response; the answer may depend on the request and on
  all requests sent before it. The list of requests sent so far is threaded through
  the search functions and is the trace of the run.
\<close>

type_synonym Net = "Request list \<Rightarrow> Request \<Rightarrow> FetchResult"

definition ok :: "Response \<Rightarrow> bool" where
  "ok response = (200 \<le> status response \<and> status response \<le> 299)"

fun dataVideos :: "Body \<Rightarrow> ProviderRecord list option" where
  "dataVideos (SearchData vs _) = vs"
| "dataVideos _ = None"

fun dataImages :: "Body \<Rightarrow> ProviderRecord list option" where
  "dataImages (SearchData _ imgs) = imgs"
| "dataImages _ = None"

text \<open>
  The template literal \<open>${response.status}\<close>: a number in decimal.
\<close>

definition digitChar :: "nat \<Rightarrow> char" where
  "digitChar d = ''0123456789'' ! d"

fun showNat :: "nat \<Rightarrow> string" where
  "showNat n = (if n < 10 then [digitChar n] else showNat (n div 10) @ [digitChar (n mod 10)])"

text \<open>
  \<open>a || b\<close> on values that are a string or \<open>undefined\<close>: the left operand unless
  it is falsy, and both \<open>undefined\<close> and the empty string are falsy.
  \<open>orEmpty a\<close> is \<open>a || ''\<close>.
\<close>

definition truthy :: "string option \<Rightarrow> bool" where
  "truthy v = (case v of None \<Rightarrow> False | Some s \<Rightarrow> s \<noteq> [])"

definition jsOr :: "string option \<Rightarrow> string option \<Rightarrow> string option" where
  "jsOr a b = (if truthy a then a else b)"

definition orEmpty :: "string option \<Rightarrow> string" where
  "orEmpty a = (case jsOr a (Some []) of None \<Rightarrow> [] | Some s \<Rightarrow> s)"

text \<open>
  \<open>record.display_sizes?.find(size => size.name === nm)?.uri\<close>: the uri of the
  first rendition with that name, \<open>undefined\<close> when the list or the rendition is
  missing.
\<close>

definition renditionUri :: "DisplaySize list option \<Rightarrow> string \<Rightarrow> string option" where
  "renditionUri sizes nm =
     (case sizes of
        None \<Rightarrow> None
      | Some ds \<Rightarrow> (case List.find (\<lambda>sz. ds_name sz = nm) ds of
                     None \<Rightarrow> None
                   | Some sz \<Rightarrow> Some (uri sz)))"

definition normalize :: "ProviderRecord \<Rightarrow> GettyMedia" where
  "normalize v =
     \<lparr> gm_id = rec_id v,
       title = rec_title v,
       thumbnailUrl = orEmpty (renditionUri (display_sizes v) ''thumb''),
       previewUrl = orEmpty (renditionUri (display_sizes v) ''preview''),
       compUrl = orEmpty (jsOr (renditionUri (display_sizes v) ''comp'')
                               (renditionUri (display_sizes v) ''preview'')),
       dateCreated = date_created v \<rparr>"

text \<open>
  \<open>getActiveCollectionCodes\<close>: the codes of the toggles that are on, in the
  order of the keys of the \<open>collections\<close> object, joined by commas; \<open>null\<close>
  when none is on.
\<close>

fun joinWith :: "string \<Rightarrow> string list \<Rightarrow> string" where
  "joinWith sep [] = []"
| "joinWith sep [x] = x"
| "joinWith sep (x # y # ys) = x @ sep @ joinWith sep (y # ys)"

definition getActiveCollectionCodes :: "Collections \<Rightarrow> string option" where
  "getActiveCollectionCodes c =
     (let activeCodes =
            map snd (filter fst
              [(billboard c, ''blb''), (wwd c, ''wom''), (rollingStone c, ''rol''),
               (hollywoodReporter c, ''tho''), (variety c, ''vrt'')])
      in if length activeCodes > 0 then Some (joinWith '','' activeCodes) else None)"

text \<open>
  \<open>!accessToken\<close> holds for \<open>null\<close> and for the empty string. In the header
  the token is interpolated into \<open>Bearer ${accessToken}\<close>.
\<close>

definition tokenMissing :: "string option \<Rightarrow> bool" where
  "tokenMissing tok = (case tok of None \<Rightarrow> True | Some s \<Rightarrow> s = [])"

definition tokenText :: "string option \<Rightarrow> string" where
  "tokenText tok = (case tok of None \<Rightarrow> ''null'' | Some s \<Rightarrow> s)"

text \<open>
  Both search helpers build the phrase and the parameters the same way; the
  request differs in the path only.
\<close>

definition buildPhrase :: "AppState \<Rightarrow> string \<Rightarrow> string" where
  "buildPhrase st term = (if usePMCARC st then term @ '' PMCARC'' else term)"

definition searchParams :: "AppState \<Rightarrow> string \<Rightarrow> (string \<times> string) list" where
  "searchParams st term =
     (let params = [(''phrase'', buildPhrase st term), (''page'', ''1''), (''page_size'', ''30''),
                    (''fields'', ''id,title,thumb,preview,comp,date_created''),
                    (''sort_order'', ''most_popular'')];
          collectionCodes = getActiveCollectionCodes (collections st)
      in if truthy collectionCodes
         then params @ [(''collection_codes'', orEmpty collectionCodes)]
         else params)"

definition videoRequest :: "AppState \<Rightarrow> string \<Rightarrow> Request" where
  "videoRequest st term =
     \<lparr> req_path = ''/api/getty-videos'', req_params = searchParams st term,
       req_authorization = ''Bearer '' @ tokenText (accessToken st) \<rparr>"

definition photoRequest :: "AppState \<Rightarrow> string \<Rightarrow> Request" where
  "photoRequest st term =
     \<lparr> req_path = ''/api/getty-photos'', req_params = searchParams st term,
       req_authorization = ''Bearer '' @ tokenText (accessToken st) \<rparr>"

text \<open>
  \<open>if (!data.videos || data.videos.length === 0) return []\<close>, then
  \<open>slice(0, 5).map(...)\<close>.
\<close>

definition topFive :: "ProviderRecord list option \<Rightarrow> GettyMedia list" where
  "topFive records =
     (case records of
        None \<Rightarrow> []
      | Some rs \<Rightarrow> if length rs = 0 then [] else map normalize (take 5 rs))"

text \<open>
  The two helpers send their request, which extends the trace, and either throw
  (\<open>Inl\<close> with the message of the error) or return the normalized items.
\<close>

definition searchGettyVideos ::
  "AppState \<Rightarrow> Net \<Rightarrow> Request list \<Rightarrow> string \<Rightarrow> Request list \<times> (string + GettyMedia list)" where
  "searchGettyVideos st net log term =
     (let request = videoRequest st term
      in (log @ [request],
          case net log request of
            Rejected msg \<Rightarrow> Inl msg
          | Resolved response \<Rightarrow>
              if \<not> ok response
              then Inl (''Getty video search failed: '' @ showNat (status response))
              else (case body response of
                      NotJson msg \<Rightarrow> Inl msg
                    | data \<Rightarrow> Inr (topFive (dataVideos data)))))"

definition searchGettyPhotos ::
  "AppState \<Rightarrow> Net \<Rightarrow> Request list \<Rightarrow> string \<Rightarrow> Request list \<times> (string + GettyMedia list)" where
  "searchGettyPhotos st net log term =
     (let request = photoRequest st term
      in (log @ [request],
          case net log request of
            Rejected msg \<Rightarrow> Inl msg
          | Resolved response \<Rightarrow>
              if \<not> ok response
              then Inl (''Getty photo search failed: '' @ showNat (status response))
              else (case body response of
                      NotJson msg \<Rightarrow> Inl msg
                    | data \<Rightarrow> Inr (topFive (dataImages data)))))"

text \<open>
  The loop \<open>for (const person of shotlist)\<close> of \<open>handleSearchGetty\<close>, with
  the local array \<open>results\<close> as an accumulator. A throw of either helper leaves
  the loop. The delay after each entity has no effect on the state.
\<close>

fun searchLoop ::
  "AppState \<Rightarrow> Net \<Rightarrow> Request list \<Rightarrow> PersonGettyResults list \<Rightarrow> Person list
     \<Rightarrow> Request list \<times> (string + PersonGettyResults list)" where
  "searchLoop st net log results [] = (log, Inr results)"
| "searchLoop st net log results (p # ps) =
     (case searchGettyVideos st net log (name p) of
        (log1, Inl msg) \<Rightarrow> (log1, Inl msg)
      | (log1, Inr vs) \<Rightarrow>
          (case searchGettyPhotos st net log1 (name p) of
             (log2, Inl msg) \<Rightarrow> (log2, Inl msg)
           | (log2, Inr phs) \<Rightarrow>
               searchLoop st net log2 (results @ [\<lparr> person = p, videos = vs, photos = phs \<rparr>]) ps))"

text \<open>
  The handler: without a token it sets the error and returns; otherwise it runs
  the loop, stores the results and moves to step 4, or, in the \<open>catch\<close> branch,
  stores the message of the error. \<open>finally\<close> clears \<open>isLoading\<close>.
\<close>

definition handleSearchGetty :: "AppState \<Rightarrow> Net \<Rightarrow> Request list \<Rightarrow> Request list \<times> AppState" where
  "handleSearchGetty st net log =
     (if tokenMissing (accessToken st)
      then (log, st\<lparr> error := ''Getty API not initialized'' \<rparr>)
      else (case searchLoop st net log [] (shotlist st) of
              (log', Inr results) \<Rightarrow>
                (log', st\<lparr> isLoading := False, error := [], gettyResults := results,
                           currentStep := 4 \<rparr>)
            | (log', Inl msg) \<Rightarrow>
                (log', st\<lparr> isLoading := False, error := msg \<rparr>)))"

section \<open>Export compiler\<close>

text \<open>
  \<open>toLocaleDateString\<close> depends on the locale of the browser and is a parameter.
  \<open>CHR 0x22\<close> is the double quote and \<open>CHR 0x0A\<close> the newline.
\<close>

definition csvHeader :: string where
  "csvHeader = ''Person Name,Getty File ID,Media Type,Title,Date Created,Download URL'' @ [CHR 0x0A]"

definition escapeQuotes :: "string \<Rightarrow> string" where
  "escapeQuotes s = concat (map (\<lambda>c. if c = CHR 0x22 then [CHR 0x22, CHR 0x22] else [c]) s)"

definition csvRow :: "(string \<Rightarrow> string) \<Rightarrow> SelectedItem \<Rightarrow> GettyMedia \<Rightarrow> string" where
  "csvRow toLocaleDateString item media =
     (let ttl = [CHR 0x22] @ escapeQuotes (title media) @ [CHR 0x22];
          date = toLocaleDateString (dateCreated media);
          downloadUrl = compUrl media
      in personName item @ '','' @ gm_id media @ '','' @ mediaTypeStr (mediaType item) @ '',''
         @ ttl @ '','' @ date @ '','' @ downloadUrl @ [CHR 0x0A])"

text \<open>
  \<open>gettyResults[item.personIndex]\<close> is \<open>undefined\<close> out of range;
  \<open>find\<close> returns the first item of the kind with the id, or \<open>undefined\<close>.
\<close>

definition lookupMedia :: "PersonGettyResults list \<Rightarrow> SelectedItem \<Rightarrow> GettyMedia option" where
  "lookupMedia results item =
     (if personIndex item < length results
      then (let result = results ! personIndex item
            in if mediaType item = Video
               then List.find (\<lambda>v. gm_id v = mediaId item) (videos result)
               else List.find (\<lambda>p. gm_id p = mediaId item) (photos result))
      else None)"

text \<open>
  The body of \<open>selectedItems.forEach\<close>: it appends one row to \<open>csvText\<close>
  when the media item is found and nothing otherwise.
\<close>

definition appendRow ::
  "(string \<Rightarrow> string) \<Rightarrow> PersonGettyResults list \<Rightarrow> string \<Rightarrow> SelectedItem \<Rightarrow> string" where
  "appendRow toLocaleDateString results csvText item =
     (case lookupMedia results item of
        None \<Rightarrow> csvText
      | Some media \<Rightarrow> csvText @ csvRow toLocaleDateString item media)"

definition compileExport ::
  "(string \<Rightarrow> string) \<Rightarrow> SelectedItem list \<Rightarrow> PersonGettyResults list \<Rightarrow> string + string" where
  "compileExport toLocaleDateString items results =
     (if length items = 0
      then Inl ''No items selected. Please select videos or photos to export.''
      else Inr (foldl (appendRow toLocaleDateString results) csvHeader items))"

definition handleCompileExport :: "(string \<Rightarrow> string) \<Rightarrow> AppState \<Rightarrow> AppState" where
  "handleCompileExport toLocaleDateString st =
     (case compileExport toLocaleDateString (selectedItems st) (gettyResults st) of
        Inl msg \<Rightarrow> st\<lparr> error := msg \<rparr>
      | Inr csvText \<Rightarrow> st\<lparr> exportText := csvText, currentStep := 5 \<rparr>)"

section \<open>Bundle packager\<close>














text \<open>
  The archive maps the name given to \<open>zip.file\<close> to the blob stored under it;
  \<open>zip.file\<close> replaces an entry with the same name. \<open>fetchBlob\<close> models the body
  of the inner \<open>try\<close>, \<open>fetch(url)\<close> followed by \<open>response.blob()\<close>: \<open>Inl\<close>
  with the text of the error when it throws. The status of the response is not
  inspected by the code, so a response with an error status still yields a blob.
  The inner \<open>catch\<close> passes two arguments to \<open>console.error\<close>, the line that
  names the file and the error, and the loop goes on; a console entry is that pair.
\<close>

type_synonym Zip = "string \<rightharpoonup> string"




text \<open>
  \<open>generateAsync\<close> stands for \<open>zip.generateAsync\<close> followed by \<open>saveAs\<close>,
  both library calls: \<open>Inl\<close> with the message when one of them throws. The outer
  \<open>catch\<close> stores the message of whatever was thrown in the \<open>try\<close> block as the
  error of the state and writes it to the console. A run yields what the user
  sees (an alert, a saved file or a failure), the archive, the console entries
  and the state after it.
\<close>

datatype ZipOutcome = Alerted string | Saved string | ZipFailed string

record ZipRun =
  outcome :: ZipOutcome
  archive :: Zip
  consoleErrors :: "(string \<times> string) list"
  after :: AppState


section \<open>Vocabulary of the properties\<close>

subsection \<open>Selection ledger\<close>

text \<open>
  The identity of a selection, the uniqueness invariant, and the removal of the
  first element that satisfies a predicate, which is what \<open>toggleSelection\<close>
  does with the index found.
\<close>

definition selKey :: "SelectedItem \<Rightarrow> nat \<times> string" where
  "selKey item = (personIndex item, mediaId item)"

definition ledgerInv :: "SelectedItem list \<Rightarrow> bool" where
  "ledgerInv items = distinct (map selKey items)"

fun removeFirst :: "('a \<Rightarrow> bool) \<Rightarrow> 'a list \<Rightarrow> 'a list" where
  "removeFirst P [] = []"
| "removeFirst P (x # xs) = (if P x then xs else x # removeFirst P xs)"

text \<open>
  The operations of the ledger as data, and the calls that the rendered page
  offers for given result sets: every handler is bound to an entity of the result
  list, with the name and the items of that entity.
\<close>

datatype LedgerOp =
    Toggle nat string GettyMedia MediaType
  | SelectAllVideos nat string "GettyMedia list"
  | SelectAllPhotos nat string "GettyMedia list"
  | DeselectAllVideos nat
  | DeselectAllPhotos nat
  | SelectAllVideosGlobal
  | DeselectAllVideosGlobal
  | SelectAllPhotosGlobal
  | DeselectAllPhotosGlobal

fun applyOp :: "PersonGettyResults list \<Rightarrow> SelectedItem list \<Rightarrow> LedgerOp \<Rightarrow> SelectedItem list" where
  "applyOp rs prev (Toggle i nm m t) = toggleSelection i nm m t prev"
| "applyOp rs prev (SelectAllVideos i nm vs) = selectAllVideos i nm vs prev"
| "applyOp rs prev (SelectAllPhotos i nm ps) = selectAllPhotos i nm ps prev"
| "applyOp rs prev (DeselectAllVideos i) = deselectAllVideos i prev"
| "applyOp rs prev (DeselectAllPhotos i) = deselectAllPhotos i prev"
| "applyOp rs prev SelectAllVideosGlobal = selectAllVideosGlobal rs prev"
| "applyOp rs prev DeselectAllVideosGlobal = deselectAllVideosGlobal prev"
| "applyOp rs prev SelectAllPhotosGlobal = selectAllPhotosGlobal rs prev"
| "applyOp rs prev DeselectAllPhotosGlobal = deselectAllPhotosGlobal prev"

definition mediaOf :: "MediaType \<Rightarrow> PersonGettyResults \<Rightarrow> GettyMedia list" where
  "mediaOf t result = (if t = Video then videos result else photos result)"

fun rendered :: "PersonGettyResults list \<Rightarrow> LedgerOp \<Rightarrow> bool" where
  "rendered rs (Toggle i nm m t) =
     (i < length rs \<and> nm = name (person (rs ! i)) \<and> m \<in> set (mediaOf t (rs ! i)))"
| "rendered rs (SelectAllVideos i nm vs) =
     (i < length rs \<and> nm = name (person (rs ! i)) \<and> vs = videos (rs ! i))"
| "rendered rs (SelectAllPhotos i nm ps) =
     (i < length rs \<and> nm = name (person (rs ! i)) \<and> ps = photos (rs ! i))"
| "rendered rs (DeselectAllVideos i) = (i < length rs)"
| "rendered rs (DeselectAllPhotos i) = (i < length rs)"
| "rendered rs _ = True"

text \<open>
  Result sets in which no id occurs twice among the videos and photos of one
  entity, and ledgers whose selections are drawn from the result array of their
  kind.
\<close>

definition idsDistinct :: "PersonGettyResults list \<Rightarrow> bool" where
  "idsDistinct rs = list_all (\<lambda>r. distinct (map gm_id (videos r @ photos r))) rs"

definition drawnFrom :: "PersonGettyResults list \<Rightarrow> SelectedItem list \<Rightarrow> bool" where
  "drawnFrom rs items =
     list_all (\<lambda>item. personIndex item < length rs
                 \<and> mediaId item \<in> gm_id ` set (mediaOf (mediaType item) (rs ! personIndex item)))
       items"

subsection \<open>Search\<close>

text \<open>
  A call succeeds when it resolves with an ok status and a JSON body;
  \<open>records\<close> are the records of a kind that an answer carries. \<open>answers\<close> says
  that a result set belongs to an entity: it holds the entity and the normalized
  first five records of the answers to the video and photo requests made for it.
\<close>

definition succeeds :: "FetchResult \<Rightarrow> bool" where
  "succeeds fr =
     (case fr of
        Rejected _ \<Rightarrow> False
      | Resolved response \<Rightarrow>
          ok response \<and> (case body response of NotJson _ \<Rightarrow> False | _ \<Rightarrow> True))"

definition records :: "MediaType \<Rightarrow> FetchResult \<Rightarrow> ProviderRecord list" where
  "records t fr =
     (case fr of
        Rejected _ \<Rightarrow> []
      | Resolved response \<Rightarrow>
          (case (if t = Video then dataVideos (body response) else dataImages (body response)) of
             None \<Rightarrow> []
           | Some rs \<Rightarrow> rs))"

definition answers :: "AppState \<Rightarrow> Net \<Rightarrow> Person \<Rightarrow> PersonGettyResults \<Rightarrow> bool" where
  "answers st net p r =
     (person r = p \<and>
      (\<exists>log. videos r = map normalize (take 5 (records Video (net log (videoRequest st (name p)))))
           \<and> photos r = map normalize (take 5 (records Photo
                  (net (log @ [videoRequest st (name p)]) (photoRequest st (name p)))))))"

definition phraseOf :: "Request \<Rightarrow> string option" where
  "phraseOf request = map_of (req_params request) ''phrase''"

text \<open>
  The requests a search is expected to send for a list of entities: for each
  entity in turn the video request and then the photo request for its name.
\<close>

definition entityRequests :: "AppState \<Rightarrow> Person list \<Rightarrow> Request list" where
  "entityRequests st ps =
     concat (map (\<lambda>p. [videoRequest st (name p), photoRequest st (name p)]) ps)"

text \<open>
  In the words of the specification: the uri of the rendition with a given name,
  and the empty string when there is none.
\<close>

definition renditionNamed :: "DisplaySize list option \<Rightarrow> string \<Rightarrow> string" where
  "renditionNamed sizes nm =
     (case sizes of
        None \<Rightarrow> []
      | Some ds \<Rightarrow> (case List.find (\<lambda>d. ds_name d = nm) ds of None \<Rightarrow> [] | Some d \<Rightarrow> uri d))"

subsection \<open>Export and packaging\<close>

text \<open>
  A selection resolves when its entity index is in range and the result array of
  its kind has an item with its id. \<open>dataRows\<close> are the rows of the resolved
  selections, in ledger order.
\<close>

definition resolves :: "PersonGettyResults list \<Rightarrow> SelectedItem \<Rightarrow> bool" where
  "resolves results item =
     (personIndex item < length results
      \<and> list_ex (\<lambda>m. gm_id m = mediaId item)
           (mediaOf (mediaType item) (results ! personIndex item)))"

definition dataRows ::
  "(string \<Rightarrow> string) \<Rightarrow> PersonGettyResults list \<Rightarrow> SelectedItem list \<Rightarrow> string list" where
  "dataRows toLocaleDateString results items =
     concat (map (\<lambda>item. case lookupMedia results item of
                            None \<Rightarrow> []
                          | Some media \<Rightarrow> [csvRow toLocaleDateString item media]) items)"

text \<open>
  In the words of the specification: a row is the entity name, the media id, the
  kind, the title in double quotes with inner quotes doubled, the formatted date
  and the comp URL, separated by commas and ended by a line feed; the media item
  of a selection is the first item with its id in the result array of its kind.
  \<open>countLines\<close> counts the line feeds of a text, and a string is line free when
  it holds none.
\<close>

fun doubleQuotes :: "string \<Rightarrow> string" where
  "doubleQuotes [] = []"
| "doubleQuotes (c # cs) =
     (if c = CHR 0x22 then CHR 0x22 # CHR 0x22 # doubleQuotes cs else c # doubleQuotes cs)"

definition specRow :: "(string \<Rightarrow> string) \<Rightarrow> SelectedItem \<Rightarrow> GettyMedia \<Rightarrow> string" where
  "specRow toLocaleDateString item media =
     joinWith '',''
       [personName item, gm_id media, mediaTypeStr (mediaType item),
        CHR 0x22 # doubleQuotes (title media) @ [CHR 0x22],
        toLocaleDateString (dateCreated media), compUrl media]
     @ [CHR 0x0A]"

definition resolveMedia :: "PersonGettyResults list \<Rightarrow> SelectedItem \<Rightarrow> GettyMedia option" where
  "resolveMedia results item =
     (if personIndex item < length results
      then List.find (\<lambda>m. gm_id m = mediaId item)
             (mediaOf (mediaType item) (results ! personIndex item))
      else None)"

definition resolvedRows ::
  "(string \<Rightarrow> string) \<Rightarrow> PersonGettyResults list \<Rightarrow> SelectedItem list \<Rightarrow> string list" where
  "resolvedRows toLocaleDateString results items =
     concat (map (\<lambda>item. case resolveMedia results item of
                            None \<Rightarrow> []
                          | Some media \<Rightarrow> [specRow toLocaleDateString item media]) items)"

definition countLines :: "string \<Rightarrow> nat" where
  "countLines text = length (filter (\<lambda>c. c = CHR 0x0A) text)"

definition lineFree :: "string \<Rightarrow> bool" where
  "lineFree s = (CHR 0x0A \<notin> set s)"

definition oneLine :: "(string \<Rightarrow> string) \<Rightarrow> PersonGettyResults list \<Rightarrow> SelectedItem \<Rightarrow> bool" where
  "oneLine toLocaleDateString results item =
     (case resolveMedia results item of
        None \<Rightarrow> True
      | Some media \<Rightarrow>
          lineFree (personName item) \<and> lineFree (gm_id media) \<and> lineFree (title media)
          \<and> lineFree (toLocaleDateString (dateCreated media)) \<and> lineFree (compUrl media))"





section \<open>Example data\<close>

text \<open>
  Two entities, result sets for the first of them with and without an id shared by
  a video and a photo, a state ready for the search, provider records, networks
  that answer every call, that carry no video records, or that fail at the
  \<open>n\<close>-th call, and fetches of which one or all fail.
\<close>

definition exJane :: Person where
  "exJane = \<lparr> name = ''Jane Doe'', searchTerm = ''Jane Doe 2025 Grammy Awards'' \<rparr>"

definition exJohn :: Person where
  "exJohn = \<lparr> name = ''John Roe'', searchTerm = ''John Roe White House 2024'' \<rparr>"

definition exVideo :: GettyMedia where
  "exVideo = \<lparr> gm_id = ''101'', title = ''Red carpet'', thumbnailUrl = ''t101'',
               previewUrl = ''p101'', compUrl = ''c101'', dateCreated = ''2025-02-02'' \<rparr>"

definition exPhoto :: GettyMedia where
  "exPhoto = \<lparr> gm_id = ''202'', title = ''Portrait'', thumbnailUrl = ''t202'',
               previewUrl = ''p202'', compUrl = ''c202'', dateCreated = ''2025-02-03'' \<rparr>"

definition exClashPhoto :: GettyMedia where
  "exClashPhoto = \<lparr> gm_id = ''101'', title = ''Backstage'', thumbnailUrl = ''t101b'',
               previewUrl = ''p101b'', compUrl = ''c101b'', dateCreated = ''2025-02-04'' \<rparr>"

definition exResults :: "PersonGettyResults list" where
  "exResults = [\<lparr> person = exJane, videos = [exVideo], photos = [exPhoto] \<rparr>]"

definition exClashResults :: "PersonGettyResults list" where
  "exClashResults = [\<lparr> person = exJane, videos = [exVideo], photos = [exClashPhoto] \<rparr>]"

definition exCollections :: Collections where
  "exCollections = \<lparr> billboard = True, wwd = True, rollingStone = True,
                     hollywoodReporter = True, variety = True \<rparr>"

definition exState :: AppState where
  "exState = \<lparr> script = ''Jane Doe met John Roe.'', shotlist = [exJane, exJohn],
               gettyResults = [], currentStep = 3, isLoading = False, error = [],
               accessToken = Some ''token'', exportText = [], selectedItems = [],
               isDownloading = False, collections = exCollections, usePMCARC = True \<rparr>"

definition exRecord :: ProviderRecord where
  "exRecord = \<lparr> rec_id = ''101'', rec_title = ''Red carpet'',
                display_sizes = Some [\<lparr> ds_name = ''comp'', uri = ''c101'' \<rparr>,
                                      \<lparr> ds_name = ''preview'', uri = ''p101'' \<rparr>,
                                      \<lparr> ds_name = ''thumb'', uri = ''t101'' \<rparr>],
                date_created = ''2025-02-02'' \<rparr>"

definition exEmptyComp :: ProviderRecord where
  "exEmptyComp = \<lparr> rec_id = ''303'', rec_title = ''Interview'',
                display_sizes = Some [\<lparr> ds_name = ''comp'', uri = [] \<rparr>,
                                      \<lparr> ds_name = ''preview'', uri = ''p303'' \<rparr>],
                date_created = ''2025-02-05'' \<rparr>"

definition exNet :: Net where
  "exNet log request = Resolved \<lparr> status = 200, body = SearchData (Some [exRecord]) (Some []) \<rparr>"

definition exQuietNet :: Net where
  "exQuietNet log request = Resolved \<lparr> status = 200, body = SearchData None (Some []) \<rparr>"

definition exNetFailAt :: "nat \<Rightarrow> string \<Rightarrow> Net" where
  "exNetFailAt n payload log request =
     (if length log = n
      then Resolved \<lparr> status = 503, body = ErrorPayload payload \<rparr>
      else Resolved \<lparr> status = 200, body = SearchData (Some [exRecord]) (Some []) \<rparr>)"

definition exSelected :: "SelectedItem list" where
  "exSelected = [newSelection 0 ''Jane Doe'' exVideo Video, newSelection 0 ''Jane Doe'' exPhoto Photo]"

definition exStale :: SelectedItem where
  "exStale = newSelection 0 ''Jane Doe'' exClashPhoto Photo"

definition exStep4 :: AppState where
  "exStep4 = exState\<lparr> gettyResults := exResults, currentStep := 4, selectedItems := exSelected \<rparr>"

definition exBrokenName :: string where
  "exBrokenName = ''Jane'' @ [CHR 0x0A] @ ''Doe''"

definition exBrokenStep4 :: AppState where
  "exBrokenStep4 =
     exState\<lparr> gettyResults :=
                 [\<lparr> person = \<lparr> name = exBrokenName, searchTerm = ''Jane Doe'' \<rparr>,
                    videos = [exVideo], photos = [] \<rparr>],
               currentStep := 4,
               selectedItems := toggleSelection 0 exBrokenName exVideo Video [] \<rparr>"





lemmas ex_defs = exJane_def exJohn_def exVideo_def exPhoto_def exClashPhoto_def
  exResults_def exClashResults_def

lemmas ledger_defs = toggleSelection_def selectAllVideos_def selectAllPhotos_def
  deselectAllVideos_def deselectAllPhotos_def selectAllVideosGlobal_def
  selectAllPhotosGlobal_def deselectAllVideosGlobal_def deselectAllPhotosGlobal_def
  newSelection_def fileNameOf_def selKey_def ledgerInv_def mediaOf_def Let_def


section \<open>Toggling a selection\<close>

lemma findIndex_ge: "findIndex P xs \<ge> -1"
  by (induction xs) (auto simp: Let_def)

lemma findIndex_neg_iff: "findIndex P xs < 0 \<longleftrightarrow> (\<forall>x\<in>set xs. \<not> P x)"
  using findIndex_ge[of P] by (induction xs) (auto simp: Let_def)

lemma filterIndexed_above_nat:
  "k < n \<Longrightarrow> filterIndexed n (\<lambda>_ i. i \<noteq> k) xs = xs"
  by (induction xs arbitrary: n) auto

lemma filterIndexed_findIndex:
  "findIndex P xs \<ge> 0 \<Longrightarrow>
   filterIndexed n (\<lambda>_ i. int i \<noteq> int n + findIndex P xs) xs = removeFirst P xs"
proof (induction xs arbitrary: n)
  case Nil
  then show ?case by simp
next
  case (Cons x xs)
  show ?case
  proof (cases "P x")
    case True
    then show ?thesis by (simp add: filterIndexed_above_nat)
  next
    case False
    with Cons.prems have ge: "findIndex P xs \<ge> 0"
      by (auto simp: Let_def split: if_splits)
    have eq: "int n + (findIndex P xs + 1) = int (Suc n) + findIndex P xs" by simp
    have "filterIndexed n (\<lambda>_ i. int i \<noteq> int n + findIndex P (x # xs)) (x # xs)
        = x # filterIndexed (Suc n) (\<lambda>_ i. int i \<noteq> int n + (findIndex P xs + 1)) xs"
      using False ge by (simp add: Let_def)
    also have "\<dots> = x # removeFirst P xs"
      unfolding eq using Cons.IH[OF ge, of "Suc n"] by simp
    finally show ?thesis using False by simp
  qed
qed

lemma toggleSelection_cases:
  "toggleSelection i nm m t prev =
     (if \<exists>x\<in>set prev. selKey x = (i, gm_id m)
      then removeFirst (\<lambda>x. selKey x = (i, gm_id m)) prev
      else prev @ [newSelection i nm m t])"
proof -
  let ?P = "\<lambda>item. personIndex item = i \<and> mediaId item = gm_id m"
  have P: "?P = (\<lambda>x. selKey x = (i, gm_id m))" by (auto simp: selKey_def)
  show ?thesis
  proof (cases "findIndex ?P prev \<ge> 0")
    case True
    then have "\<exists>x\<in>set prev. ?P x" using findIndex_neg_iff[of ?P prev] by auto
    moreover have "filterIndexed 0 (\<lambda>_ index. int index \<noteq> findIndex ?P prev) prev = removeFirst ?P prev"
      using filterIndexed_findIndex[OF True, of 0] by simp
    ultimately show ?thesis using True unfolding toggleSelection_def Let_def P by auto
  next
    case False
    then have "\<not> (\<exists>x\<in>set prev. ?P x)" using findIndex_neg_iff[of ?P prev] by auto
    then show ?thesis using False unfolding toggleSelection_def Let_def P by auto
  qed
qed

lemma removeFirst_append_new:
  "\<forall>x\<in>set xs. \<not> P x \<Longrightarrow> P y \<Longrightarrow> removeFirst P (xs @ [y]) = xs"
  by (induction xs) auto

lemma removeFirst_remove1:
  "distinct (map f xs) \<Longrightarrow> y \<in> set xs \<Longrightarrow> removeFirst (\<lambda>x. f x = f y) xs = remove1 y xs"
proof (induction xs)
  case Nil then show ?case by simp
next
  case (Cons x xs)
  then show ?case by (auto simp: image_iff)
qed

lemma removeFirst_none_left:
  "distinct (map f xs) \<Longrightarrow> \<forall>x\<in>set (removeFirst (\<lambda>x. f x = k) xs). f x \<noteq> k"
  by (induction xs) (auto simp: image_iff)

lemma set_removeFirst: "set (removeFirst P xs) \<subseteq> set xs"
  by (induction xs) auto

lemma distinct_map_removeFirst: "distinct (map f xs) \<Longrightarrow> distinct (map f (removeFirst P xs))"
  using set_removeFirst[of P] by (induction xs) (auto simp: image_iff)

lemma selKey_new [simp]: "selKey (newSelection i nm m t) = (i, gm_id m)"
  by (simp add: selKey_def newSelection_def)

text \<open>
  Claim C2, as amended. Toggling twice with the same arguments restores the ledger
  exactly when no selection with the pair (entity index, media id) was in it. When
  the ledger satisfies the uniqueness invariant and contains the very selection
  that the toggle builds from its arguments, toggling twice removes that selection
  and appends it again at the end: the ledger holds the same selections as before,
  as a multiset, in a different order.
\<close>

theorem toggle_twice:
  "(\<not> isSelected prev i (gm_id m) \<longrightarrow>
      toggleSelection i nm m t (toggleSelection i nm m t prev) = prev)
   \<and> (ledgerInv prev \<and> newSelection i nm m t \<in> set prev \<longrightarrow>
      toggleSelection i nm m t (toggleSelection i nm m t prev)
        = remove1 (newSelection i nm m t) prev @ [newSelection i nm m t]
      \<and> mset (toggleSelection i nm m t (toggleSelection i nm m t prev)) = mset prev)"
proof (intro conjI impI)
  assume "\<not> isSelected prev i (gm_id m)"
  then have no: "\<forall>x\<in>set prev. selKey x \<noteq> (i, gm_id m)"
    by (auto simp: isSelected_def list_ex_iff selKey_def)
  then have "toggleSelection i nm m t prev = prev @ [newSelection i nm m t]"
    by (simp add: toggleSelection_cases)
  then show "toggleSelection i nm m t (toggleSelection i nm m t prev) = prev"
    using no by (simp add: toggleSelection_cases removeFirst_append_new)
next
  assume a: "ledgerInv prev \<and> newSelection i nm m t \<in> set prev"
  let ?y = "newSelection i nm m t"
  have d: "distinct (map selKey prev)" using a by (simp add: ledgerInv_def)
  have ex: "\<exists>x\<in>set prev. selKey x = (i, gm_id m)" using a by (intro bexI[of _ ?y]) auto
  have one: "toggleSelection i nm m t prev = remove1 ?y prev"
    using removeFirst_remove1[OF d, of ?y] a ex by (simp add: toggleSelection_cases)
  have none: "\<forall>x\<in>set (remove1 ?y prev). selKey x \<noteq> (i, gm_id m)"
    using removeFirst_none_left[OF d, of "(i, gm_id m)"] removeFirst_remove1[OF d, of ?y] a by simp
  show two: "toggleSelection i nm m t (toggleSelection i nm m t prev) = remove1 ?y prev @ [?y]"
    unfolding one using none by (simp add: toggleSelection_cases)
  show "mset (toggleSelection i nm m t (toggleSelection i nm m t prev)) = mset prev"
    unfolding two using a by simp
qed

theorem toggle_twice_witness:
  "\<not> isSelected [] 0 (gm_id exVideo)
   \<and> toggleSelection 0 ''Jane Doe'' exVideo Video (toggleSelection 0 ''Jane Doe'' exVideo Video []) = []
   \<and> ledgerInv [newSelection 0 ''Jane Doe'' exVideo Video, newSelection 0 ''Jane Doe'' exPhoto Photo]
   \<and> newSelection 0 ''Jane Doe'' exVideo Video
        \<in> set [newSelection 0 ''Jane Doe'' exVideo Video, newSelection 0 ''Jane Doe'' exPhoto Photo]
   \<and> toggleSelection 0 ''Jane Doe'' exVideo Video (toggleSelection 0 ''Jane Doe'' exVideo Video
        [newSelection 0 ''Jane Doe'' exVideo Video, newSelection 0 ''Jane Doe'' exPhoto Photo])
      = [newSelection 0 ''Jane Doe'' exPhoto Photo, newSelection 0 ''Jane Doe'' exVideo Video]"
proof -
  have a: "\<not> isSelected [] 0 (gm_id exVideo)" by (simp add: isSelected_def)
  have b: "ledgerInv [newSelection 0 ''Jane Doe'' exVideo Video, newSelection 0 ''Jane Doe'' exPhoto Photo]"
    by (simp add: ledgerInv_def selKey_def newSelection_def ex_defs)
  have c: "newSelection 0 ''Jane Doe'' exVideo Video
        \<in> set [newSelection 0 ''Jane Doe'' exVideo Video, newSelection 0 ''Jane Doe'' exPhoto Photo]"
    by simp
  have d: "newSelection 0 ''Jane Doe'' exVideo Video \<noteq> newSelection 0 ''Jane Doe'' exPhoto Photo"
    by (simp add: newSelection_def)
  from toggle_twice[of "[]" 0 exVideo "''Jane Doe''" Video]
    toggle_twice[of "[newSelection 0 ''Jane Doe'' exVideo Video, newSelection 0 ''Jane Doe'' exPhoto Photo]"
       0 exVideo "''Jane Doe''" Video]
    a b c d
  show ?thesis by simp
qed

text \<open>
  The claim as stated fails: with a photo selection of entity 0 in the ledger,
  toggling a video of entity 0 that has the same id removes the photo selection
  and then adds a video selection, so neither the list nor the set of selections
  is what it was.
\<close>

theorem toggle_twice_counterexample:
  "toggleSelection 0 ''Jane Doe'' exVideo Video
     (toggleSelection 0 ''Jane Doe'' exVideo Video [newSelection 0 ''Jane Doe'' exClashPhoto Photo])
     = [newSelection 0 ''Jane Doe'' exVideo Video]
   \<and> set [newSelection 0 ''Jane Doe'' exVideo Video]
       \<noteq> set [newSelection 0 ''Jane Doe'' exClashPhoto Photo]"
  by (simp add: ex_defs ledger_defs)

section \<open>The uniqueness invariant of the ledger\<close>

lemma ledgerInv_filter: "ledgerInv xs \<Longrightarrow> ledgerInv (filter P xs)"
  by (simp add: ledgerInv_def distinct_map_filter)

lemma drawnFrom_filter: "drawnFrom rs xs \<Longrightarrow> drawnFrom rs (filter P xs)"
  by (simp add: drawnFrom_def list_all_iff)

lemma drawnFrom_append: "drawnFrom rs (xs @ ys) \<longleftrightarrow> drawnFrom rs xs \<and> drawnFrom rs ys"
  by (auto simp: drawnFrom_def)

lemma ledgerInv_append:
  "ledgerInv (xs @ ys) \<longleftrightarrow> ledgerInv xs \<and> ledgerInv ys \<and> selKey ` set xs \<inter> selKey ` set ys = {}"
  by (auto simp: ledgerInv_def)

lemma newSelection_fields [simp]:
  "personIndex (newSelection i nm m t) = i"
  "mediaId (newSelection i nm m t) = gm_id m"
  "mediaType (newSelection i nm m t) = t"
  by (simp_all add: newSelection_def)

lemma ledgerInv_new_of_kind:
  "distinct (map gm_id ms) \<Longrightarrow> ledgerInv (map (\<lambda>m. newSelection i nm m t) ms)"
  by (simp add: ledgerInv_def comp_def distinct_map inj_on_def)

lemma drawnFrom_new_of_kind:
  "i < length rs \<Longrightarrow> drawnFrom rs (map (\<lambda>m. newSelection i nm m t) (mediaOf t (rs ! i)))"
  by (auto simp: drawnFrom_def list_all_iff)

lemma other_kind_disjoint:
  assumes ids: "idsDistinct rs" and i: "i < length rs"
    and x: "mediaId x \<in> gm_id ` set (mediaOf (mediaType x) (rs ! i))" "mediaType x \<noteq> t"
    and m: "m \<in> set (mediaOf t (rs ! i))"
  shows "mediaId x \<noteq> gm_id m"
proof -
  have d: "distinct (map gm_id (videos (rs ! i) @ photos (rs ! i)))"
    using ids i by (auto simp: idsDistinct_def list_all_iff)
  then have "gm_id ` set (videos (rs ! i)) \<inter> gm_id ` set (photos (rs ! i)) = {}"
    by auto
  with x m show ?thesis
    by (cases t; cases "mediaType x") (auto simp: mediaOf_def)
qed

lemma selectAll_kind_ok:
  assumes ids: "idsDistinct rs" and i: "i < length rs"
    and inv: "ledgerInv prev" and dr: "drawnFrom rs prev"
  shows "ledgerInv (filter (\<lambda>item. \<not> (personIndex item = i \<and> mediaType item = t)) prev
            @ map (\<lambda>m. newSelection i nm m t) (mediaOf t (rs ! i)))"
proof -
  let ?f = "filter (\<lambda>item. \<not> (personIndex item = i \<and> mediaType item = t)) prev"
  let ?n = "map (\<lambda>m. newSelection i nm m t) (mediaOf t (rs ! i))"
  have d: "distinct (map gm_id (mediaOf t (rs ! i)))"
    using ids i by (auto simp: idsDistinct_def list_all_iff mediaOf_def)
  have ne: "selKey x \<noteq> selKey y" if x: "x \<in> set ?f" and y: "y \<in> set ?n" for x y
  proof
    assume k: "selKey x = selKey y"
    from y obtain m where m: "m \<in> set (mediaOf t (rs ! i))" and ym: "y = newSelection i nm m t"
      by auto
    from k ym have pi: "personIndex x = i" and mi: "mediaId x = gm_id m"
      by (simp_all add: selKey_def)
    from x pi have xp: "x \<in> set prev" and ty: "mediaType x \<noteq> t" by simp_all
    from dr xp pi have "mediaId x \<in> gm_id ` set (mediaOf (mediaType x) (rs ! i))"
      by (auto simp: drawnFrom_def list_all_iff)
    from other_kind_disjoint[OF ids i this ty m] mi show False by simp
  qed
  have "selKey ` set ?f \<inter> selKey ` set ?n = {}"
    using ne by blast
  then show ?thesis
    using ledgerInv_filter[OF inv] ledgerInv_new_of_kind[OF d]
    by (simp add: ledgerInv_append)
qed

lemma set_allSelectionsFrom:
  "set (allSelectionsFrom t n rs) =
     {newSelection (n + k) (name (person (rs ! k))) m t | k m. k < length rs \<and> m \<in> set (mediaOf t (rs ! k))}"
proof (induction rs arbitrary: n)
  case Nil
  then show ?case by simp
next
  case (Cons r rs)
  show ?case (is "?L = ?R")
  proof (intro set_eqI iffI)
    fix x assume "x \<in> ?L"
    then consider (hd) m where "m \<in> set (mediaOf t r)" "x = newSelection n (name (person r)) m t"
      | (tl) "x \<in> set (allSelectionsFrom t (Suc n) rs)"
      by (auto simp: mediaOf_def)
    then show "x \<in> ?R"
    proof cases
      case hd
      then show ?thesis by (auto intro!: exI[of _ 0] exI[of _ m])
    next
      case tl
      then obtain k m where "k < length rs" "m \<in> set (mediaOf t (rs ! k))"
        "x = newSelection (Suc n + k) (name (person (rs ! k))) m t"
        unfolding Cons.IH by auto
      then show ?thesis by (auto intro!: exI[of _ "Suc k"] exI[of _ m])
    qed
  next
    fix x assume "x \<in> ?R"
    then obtain k m where k: "k < length (r # rs)" "m \<in> set (mediaOf t ((r # rs) ! k))"
      "x = newSelection (n + k) (name (person ((r # rs) ! k))) m t" by auto
    show "x \<in> ?L"
    proof (cases k)
      case 0
      with k show ?thesis by (auto simp: mediaOf_def)
    next
      case (Suc j)
      with k have "x \<in> set (allSelectionsFrom t (Suc n) rs)"
        unfolding Cons.IH by auto
      then show ?thesis by simp
    qed
  qed
qed

lemma ledgerInv_allSelectionsFrom:
  "idsDistinct rs \<Longrightarrow> ledgerInv (allSelectionsFrom t n rs)"
proof (induction rs arbitrary: n)
  case Nil
  then show ?case by (simp add: ledgerInv_def)
next
  case (Cons r rs)
  then have ids: "idsDistinct rs" and d: "distinct (map gm_id (mediaOf t r))"
    by (auto simp: idsDistinct_def mediaOf_def)
  have "selKey ` set (map (\<lambda>m. newSelection n (name (person r)) m t) (mediaOf t r))
          \<inter> selKey ` set (allSelectionsFrom t (Suc n) rs) = {}"
    unfolding set_allSelectionsFrom by auto
  then show ?case
    using Cons.IH[OF ids, of "Suc n"] ledgerInv_new_of_kind[OF d]
    by (simp add: ledgerInv_append mediaOf_def)
qed

lemma drawnFrom_allSelectionsFrom: "drawnFrom rs (allSelectionsFrom t 0 rs)"
  unfolding drawnFrom_def list_all_iff set_allSelectionsFrom by auto

lemma selectAll_global_ok:
  assumes ids: "idsDistinct rs" and inv: "ledgerInv prev" and dr: "drawnFrom rs prev"
  shows "ledgerInv (filter (\<lambda>item. mediaType item \<noteq> t) prev @ allSelectionsFrom t 0 rs)"
proof -
  let ?f = "filter (\<lambda>item. mediaType item \<noteq> t) prev"
  have ne: "selKey x \<noteq> selKey y"
    if x: "x \<in> set ?f" and y: "y \<in> set (allSelectionsFrom t 0 rs)" for x y
  proof
    assume key: "selKey x = selKey y"
    from y obtain k m where k: "k < length rs" and m: "m \<in> set (mediaOf t (rs ! k))"
      and ym: "y = newSelection k (name (person (rs ! k))) m t"
      unfolding set_allSelectionsFrom by auto
    from key ym have pi: "personIndex x = k" and mi: "mediaId x = gm_id m"
      by (simp_all add: selKey_def)
    from x have xp: "x \<in> set prev" and ty: "mediaType x \<noteq> t" by simp_all
    from dr xp pi have "mediaId x \<in> gm_id ` set (mediaOf (mediaType x) (rs ! k))"
      by (auto simp: drawnFrom_def list_all_iff)
    from other_kind_disjoint[OF ids k this ty m] mi show False by simp
  qed
  have "selKey ` set ?f \<inter> selKey ` set (allSelectionsFrom t 0 rs) = {}"
    using ne by blast
  then show ?thesis
    using ledgerInv_filter[OF inv] ledgerInv_allSelectionsFrom[OF ids]
    by (simp add: ledgerInv_append)
qed

lemma toggle_ok:
  assumes inv: "ledgerInv prev"
  shows "ledgerInv (toggleSelection i nm m t prev)"
  using inv distinct_map_removeFirst[of selKey prev]
  by (auto simp: toggleSelection_cases ledgerInv_def)

lemma toggle_drawn:
  assumes "drawnFrom rs prev" "i < length rs" "m \<in> set (mediaOf t (rs ! i))"
  shows "drawnFrom rs (toggleSelection i nm m t prev)"
  using assms set_removeFirst[of "\<lambda>x. selKey x = (i, gm_id m)" prev]
  by (auto simp: toggleSelection_cases drawnFrom_def list_all_iff)

lemma applyOp_ok:
  assumes ids: "idsDistinct rs" and r: "rendered rs op"
    and inv: "ledgerInv prev" and dr: "drawnFrom rs prev"
  shows "ledgerInv (applyOp rs prev op) \<and> drawnFrom rs (applyOp rs prev op)"
proof (cases op)
  case (Toggle i nm m t)
  with r inv dr show ?thesis by (simp add: toggle_ok toggle_drawn)
next
  case (SelectAllVideos i nm vs)
  with r have i: "i < length rs" and vs: "vs = mediaOf Video (rs ! i)" by (simp_all add: mediaOf_def)
  show ?thesis
    using selectAll_kind_ok[OF ids i inv dr, of Video nm] drawnFrom_new_of_kind[OF i, of nm Video]
      drawnFrom_filter[OF dr]
    by (simp add: SelectAllVideos vs selectAllVideos_def drawnFrom_append)
next
  case (SelectAllPhotos i nm ps)
  with r have i: "i < length rs" and ps: "ps = mediaOf Photo (rs ! i)" by (simp_all add: mediaOf_def)
  show ?thesis
    using selectAll_kind_ok[OF ids i inv dr, of Photo nm] drawnFrom_new_of_kind[OF i, of nm Photo]
      drawnFrom_filter[OF dr]
    by (simp add: SelectAllPhotos ps selectAllPhotos_def drawnFrom_append)
next
  case (DeselectAllVideos i)
  then show ?thesis
    using ledgerInv_filter[OF inv] drawnFrom_filter[OF dr] by (simp add: deselectAllVideos_def)
next
  case (DeselectAllPhotos i)
  then show ?thesis
    using ledgerInv_filter[OF inv] drawnFrom_filter[OF dr] by (simp add: deselectAllPhotos_def)
next
  case SelectAllVideosGlobal
  then show ?thesis
    using selectAll_global_ok[OF ids inv dr, of Video] drawnFrom_allSelectionsFrom[of rs Video]
      drawnFrom_filter[OF dr]
    by (simp add: selectAllVideosGlobal_def drawnFrom_append)
next
  case DeselectAllVideosGlobal
  then show ?thesis
    using ledgerInv_filter[OF inv] drawnFrom_filter[OF dr] by (simp add: deselectAllVideosGlobal_def)
next
  case SelectAllPhotosGlobal
  then show ?thesis
    using selectAll_global_ok[OF ids inv dr, of Photo] drawnFrom_allSelectionsFrom[of rs Photo]
      drawnFrom_filter[OF dr]
    by (simp add: selectAllPhotosGlobal_def drawnFrom_append)
next
  case DeselectAllPhotosGlobal
  then show ?thesis
    using ledgerInv_filter[OF inv] drawnFrom_filter[OF dr] by (simp add: deselectAllPhotosGlobal_def)
qed

lemma run_ok:
  assumes ids: "idsDistinct rs"
  shows "list_all (rendered rs) ops \<Longrightarrow> ledgerInv prev \<Longrightarrow> drawnFrom rs prev \<Longrightarrow>
     ledgerInv (foldl (applyOp rs) prev ops) \<and> drawnFrom rs (foldl (applyOp rs) prev ops)"
proof (induction ops arbitrary: prev)
  case Nil
  then show ?case by simp
next
  case (Cons op ops)
  from Cons.prems have r: "rendered rs op" and rest: "list_all (rendered rs) ops" by simp_all
  from applyOp_ok[OF ids r Cons.prems(2,3)] Cons.IH[OF rest] show ?case by simp
qed

text \<open>
  Claim C1, as amended. Toggling and every deselect operation keep the property
  that at most one selection exists per pair (entity index, media id), whatever
  their arguments. For result sets in which no media id occurs twice among the
  videos and photos of one entity, every ledger reached from the empty ledger by a
  sequence of the operations the page offers (toggle, select all and deselect all
  of a kind for an entity, select all and deselect all of a kind globally) has at
  most one selection per pair (entity index, media id).
\<close>

theorem ledger_invariant:
  "(ledgerInv prev \<longrightarrow>
      ledgerInv (toggleSelection i nm m t prev)
      \<and> ledgerInv (deselectAllVideos i prev) \<and> ledgerInv (deselectAllPhotos i prev)
      \<and> ledgerInv (deselectAllVideosGlobal prev) \<and> ledgerInv (deselectAllPhotosGlobal prev))
   \<and> (idsDistinct rs \<and> list_all (rendered rs) ops \<longrightarrow>
      ledgerInv (foldl (applyOp rs) [] ops))"
proof (intro conjI impI)
  assume "idsDistinct rs \<and> list_all (rendered rs) ops"
  then show "ledgerInv (foldl (applyOp rs) [] ops)"
    using run_ok[of rs ops "[]"] by (simp add: ledgerInv_def drawnFrom_def)
qed (simp_all add: toggle_ok ledgerInv_filter deselectAllVideos_def deselectAllPhotos_def
      deselectAllVideosGlobal_def deselectAllPhotosGlobal_def)

theorem ledger_invariant_witness:
  "idsDistinct exResults
   \<and> list_all (rendered exResults)
        [Toggle 0 ''Jane Doe'' exPhoto Photo, SelectAllVideos 0 ''Jane Doe'' [exVideo],
         SelectAllPhotosGlobal]
   \<and> ledgerInv (foldl (applyOp exResults) []
        [Toggle 0 ''Jane Doe'' exPhoto Photo, SelectAllVideos 0 ''Jane Doe'' [exVideo],
         SelectAllPhotosGlobal])
   \<and> ledgerInv [newSelection 0 ''Jane Doe'' exPhoto Photo]
   \<and> ledgerInv (toggleSelection 0 ''Jane Doe'' exVideo Video [newSelection 0 ''Jane Doe'' exPhoto Photo])
   \<and> ledgerInv (deselectAllPhotos 0 [newSelection 0 ''Jane Doe'' exPhoto Photo])"
proof -
  have h1: "idsDistinct exResults"
    by (simp add: idsDistinct_def ex_defs)
  have h2: "list_all (rendered exResults)
        [Toggle 0 ''Jane Doe'' exPhoto Photo, SelectAllVideos 0 ''Jane Doe'' [exVideo],
         SelectAllPhotosGlobal]"
    by (simp add: ex_defs mediaOf_def)
  have h3: "ledgerInv [newSelection 0 ''Jane Doe'' exPhoto Photo]"
    by (simp add: ledgerInv_def)
  from ledger_invariant[of "[newSelection 0 ''Jane Doe'' exPhoto Photo]" 0 "''Jane Doe''" exVideo
      Video exResults
      "[Toggle 0 ''Jane Doe'' exPhoto Photo, SelectAllVideos 0 ''Jane Doe'' [exVideo],
        SelectAllPhotosGlobal]"] h1 h2 h3
  show ?thesis by blast
qed

text \<open>
  The claim as stated fails for result sets in which a video and a photo of one
  entity share an id: after the photo is toggled on, selecting all videos of the
  entity adds a second selection with the same pair.
\<close>

theorem ledger_invariant_counterexample:
  "list_all (rendered exClashResults)
        [Toggle 0 ''Jane Doe'' exClashPhoto Photo, SelectAllVideos 0 ''Jane Doe'' [exVideo]]
   \<and> ledgerInv (applyOp exClashResults [] (Toggle 0 ''Jane Doe'' exClashPhoto Photo))
   \<and> \<not> ledgerInv (foldl (applyOp exClashResults) []
        [Toggle 0 ''Jane Doe'' exClashPhoto Photo, SelectAllVideos 0 ''Jane Doe'' [exVideo]])"
  by (simp add: ex_defs ledger_defs)

section \<open>Select all, then deselect all, of one kind\<close>

text \<open>
  Claim C3. For every ledger, entity index \<open>i\<close> and item list, selecting all videos
  of entity \<open>i\<close> and then deselecting all videos of entity \<open>i\<close> leaves no video
  selection for \<open>i\<close>, and the photo selections of \<open>i\<close> are the same list as
  before the two calls.
\<close>

theorem select_then_deselect_videos:
  "filter (\<lambda>item. personIndex item = i \<and> mediaType item = Video)
      (deselectAllVideos i (selectAllVideos i nm items prev)) = []
   \<and> filter (\<lambda>item. personIndex item = i \<and> mediaType item = Photo)
      (deselectAllVideos i (selectAllVideos i nm items prev))
     = filter (\<lambda>item. personIndex item = i \<and> mediaType item = Photo) prev"
proof -
  have after: "deselectAllVideos i (selectAllVideos i nm items prev)
     = filter (\<lambda>item. \<not> (personIndex item = i \<and> mediaType item = Video)) prev"
    by (auto simp: deselectAllVideos_def selectAllVideos_def filter_empty_conv newSelection_def)
  have none: "filter (\<lambda>item. personIndex item = i \<and> mediaType item = Video)
      (filter (\<lambda>item. \<not> (personIndex item = i \<and> mediaType item = Video)) prev) = []"
    by (auto simp: filter_empty_conv)
  have same: "filter (\<lambda>item. personIndex item = i \<and> mediaType item = Photo)
      (filter (\<lambda>item. \<not> (personIndex item = i \<and> mediaType item = Video)) prev)
     = filter (\<lambda>item. personIndex item = i \<and> mediaType item = Photo) prev"
    by (induction prev) auto
  show ?thesis
    unfolding after using none same by simp
qed

section \<open>What the reset keeps\<close>

text \<open>
  Claim C10. The reset empties the script, the entity list, the result sets, the
  export text, the selection ledger and the error, and sets the step counter to 1;
  the five collection toggles, the phrase-augmentation flag and the access token
  are what they were before.
\<close>

theorem handleClear_frame:
  "script (handleClear st) = [] \<and> shotlist (handleClear st) = []
   \<and> gettyResults (handleClear st) = [] \<and> exportText (handleClear st) = []
   \<and> selectedItems (handleClear st) = [] \<and> error (handleClear st) = []
   \<and> currentStep (handleClear st) = 1
   \<and> collections (handleClear st) = collections st
   \<and> usePMCARC (handleClear st) = usePMCARC st
   \<and> accessToken (handleClear st) = accessToken st"
  by (simp add: handleClear_def)

section \<open>One result set per entity\<close>

lemma topFive_records:
  "topFive rs = map normalize (take 5 (case rs of None \<Rightarrow> [] | Some xs \<Rightarrow> xs))"
  by (cases rs) (auto simp: topFive_def)

lemma searchGettyVideos_ok:
  assumes "succeeds (net log (videoRequest st term))"
  shows "searchGettyVideos st net log term =
     (log @ [videoRequest st term],
      Inr (map normalize (take 5 (records Video (net log (videoRequest st term))))))"
  using assms
  by (auto simp: searchGettyVideos_def succeeds_def records_def topFive_records Let_def
      split: FetchResult.splits Body.splits option.splits)

lemma searchGettyPhotos_ok:
  assumes "succeeds (net log (photoRequest st term))"
  shows "searchGettyPhotos st net log term =
     (log @ [photoRequest st term],
      Inr (map normalize (take 5 (records Photo (net log (photoRequest st term))))))"
  using assms
  by (auto simp: searchGettyPhotos_def succeeds_def records_def topFive_records Let_def
      split: FetchResult.splits Body.splits option.splits)

lemma searchLoop_all_ok:
  assumes all: "\<forall>log req. succeeds (net log req)"
  shows "\<exists>log' rs. searchLoop st net log acc ps = (log', Inr (acc @ rs))
           \<and> list_all2 (answers st net) ps rs"
proof (induction ps arbitrary: log acc)
  case Nil
  then show ?case by simp
next
  case (Cons p ps)
  let ?v = "videoRequest st (name p)" and ?p = "photoRequest st (name p)"
  let ?r = "\<lparr> person = p,
               videos = map normalize (take 5 (records Video (net log ?v))),
               photos = map normalize (take 5 (records Photo (net (log @ [?v]) ?p))) \<rparr>"
  have step: "searchLoop st net log acc (p # ps) = searchLoop st net (log @ [?v] @ [?p]) (acc @ [?r]) ps"
    using all by (simp add: searchGettyVideos_ok searchGettyPhotos_ok)
  obtain log' rs where rest: "searchLoop st net (log @ [?v] @ [?p]) (acc @ [?r]) ps = (log', Inr ((acc @ [?r]) @ rs))"
    and ans: "list_all2 (answers st net) ps rs"
    using Cons.IH by blast
  have "answers st net p ?r" unfolding answers_def by auto
  with ans have "list_all2 (answers st net) (p # ps) (?r # rs)" by simp
  moreover have "searchLoop st net log acc (p # ps) = (log', Inr (acc @ (?r # rs)))"
    using step rest by simp
  ultimately show ?case by blast
qed

lemma exNet_succeeds: "\<forall>log req. succeeds (exNet log req)"
  by (simp add: succeeds_def exNet_def ok_def)

lemma searchLoop_persons:
  "searchLoop st net log acc ps = (log', Inr rs) \<Longrightarrow> map person rs = map person acc @ ps"
proof (induction ps arbitrary: log acc)
  case Nil
  then show ?case by simp
next
  case (Cons p ps)
  obtain l1 r1 where v: "searchGettyVideos st net log (name p) = (l1, r1)" by fastforce
  obtain l2 r2 where ph: "searchGettyPhotos st net l1 (name p) = (l2, r2)" by fastforce
  from Cons.prems v obtain vs where vs: "r1 = Inr vs" by (cases r1) auto
  from Cons.prems v vs ph obtain phs where phs: "r2 = Inr phs" by (cases r2) auto
  from Cons.prems v vs ph phs
  have "searchLoop st net l2 (acc @ [\<lparr> person = p, videos = vs, photos = phs \<rparr>]) ps = (log', Inr rs)"
    by simp
  from Cons.IH[OF this] show ?case by simp
qed

text \<open>
  Claim C5. Whenever the search loop returns, the handler stores its result, which
  has exactly one result set per entity, in the order of the entity list. When a
  token is held and every provider call succeeds, the loop does return: the persons
  of the stored result sets are the entity list, each result set holds the
  normalized first five records of the answers given for its entity, no error is
  set and the step counter is 4. An answer without records is a success like any
  other and gives an empty array.
\<close>

theorem search_one_result_per_entity:
  assumes tok: "\<not> tokenMissing (accessToken st)"
  shows "(\<forall>rs. snd (searchLoop st net log [] (shotlist st)) = Inr rs \<longrightarrow>
            gettyResults (snd (handleSearchGetty st net log)) = rs
            \<and> map person rs = shotlist st)
       \<and> ((\<forall>log req. succeeds (net log req)) \<longrightarrow>
            map person (gettyResults (snd (handleSearchGetty st net log))) = shotlist st
            \<and> list_all2 (answers st net) (shotlist st)
                  (gettyResults (snd (handleSearchGetty st net log)))
            \<and> error (snd (handleSearchGetty st net log)) = []
            \<and> currentStep (snd (handleSearchGetty st net log)) = 4)
       \<and> (succeeds (net log (videoRequest st term))
            \<and> records Video (net log (videoRequest st term)) = [] \<longrightarrow>
            snd (searchGettyVideos st net log term) = Inr [])
       \<and> (succeeds (net log (photoRequest st term))
            \<and> records Photo (net log (photoRequest st term)) = [] \<longrightarrow>
            snd (searchGettyPhotos st net log term) = Inr [])"
proof (intro conjI allI impI)
  fix rs assume r: "snd (searchLoop st net log [] (shotlist st)) = Inr rs"
  then obtain log' where run: "searchLoop st net log [] (shotlist st) = (log', Inr rs)"
    by (cases "searchLoop st net log [] (shotlist st)") auto
  show "gettyResults (snd (handleSearchGetty st net log)) = rs"
    using tok run by (simp add: handleSearchGetty_def)
  show "map person rs = shotlist st"
    using searchLoop_persons[OF run] by simp
next
  assume all: "\<forall>log req. succeeds (net log req)"
  obtain log' rs where run: "searchLoop st net log [] (shotlist st) = (log', Inr rs)"
    and ans: "list_all2 (answers st net) (shotlist st) rs"
    using searchLoop_all_ok[OF all, of st log "[]" "shotlist st"] by auto
  have st': "snd (handleSearchGetty st net log)
      = st\<lparr> isLoading := False, error := [], gettyResults := rs, currentStep := 4 \<rparr>"
    using tok run by (simp add: handleSearchGetty_def)
  show "map person (gettyResults (snd (handleSearchGetty st net log))) = shotlist st"
    unfolding st' using searchLoop_persons[OF run] by simp
  show "list_all2 (answers st net) (shotlist st) (gettyResults (snd (handleSearchGetty st net log)))"
    unfolding st' using ans by simp
  show "error (snd (handleSearchGetty st net log)) = []" unfolding st' by simp
  show "currentStep (snd (handleSearchGetty st net log)) = 4" unfolding st' by simp
next
  assume "succeeds (net log (videoRequest st term))
            \<and> records Video (net log (videoRequest st term)) = []"
  then show "snd (searchGettyVideos st net log term) = Inr []"
    by (simp add: searchGettyVideos_ok)
next
  assume "succeeds (net log (photoRequest st term))
            \<and> records Photo (net log (photoRequest st term)) = []"
  then show "snd (searchGettyPhotos st net log term) = Inr []"
    by (simp add: searchGettyPhotos_ok)
qed

theorem search_one_result_per_entity_witness:
  "\<not> tokenMissing (accessToken exState) \<and> (\<forall>log req. succeeds (exNet log req))
   \<and> snd (searchLoop exState exNet [] [] (shotlist exState))
       = Inr [\<lparr> person = exJane, videos = [normalize exRecord], photos = [] \<rparr>,
              \<lparr> person = exJohn, videos = [normalize exRecord], photos = [] \<rparr>]
   \<and> gettyResults (snd (handleSearchGetty exState exNet []))
       = [\<lparr> person = exJane, videos = [normalize exRecord], photos = [] \<rparr>,
          \<lparr> person = exJohn, videos = [normalize exRecord], photos = [] \<rparr>]
   \<and> map person (gettyResults (snd (handleSearchGetty exState exNet []))) = [exJane, exJohn]
   \<and> currentStep (snd (handleSearchGetty exState exNet [])) = 4
   \<and> records Photo (exNet [] (photoRequest exState ''Jane Doe'')) = []
   \<and> snd (searchGettyPhotos exState exNet [] ''Jane Doe'') = Inr []
   \<and> succeeds (exQuietNet [] (videoRequest exState ''Jane Doe''))
   \<and> records Video (exQuietNet [] (videoRequest exState ''Jane Doe'')) = []
   \<and> snd (searchGettyVideos exState exQuietNet [] ''Jane Doe'') = Inr []"
proof -
  let ?rs = "[\<lparr> person = exJane, videos = [normalize exRecord], photos = [] \<rparr>,
              \<lparr> person = exJohn, videos = [normalize exRecord], photos = [] \<rparr>]"
  have tok: "\<not> tokenMissing (accessToken exState)"
    by (simp add: tokenMissing_def exState_def)
  have none: "records Photo (exNet [] (photoRequest exState ''Jane Doe'')) = []"
    by (simp add: records_def exNet_def)
  have quiet: "succeeds (exQuietNet [] (videoRequest exState ''Jane Doe''))"
    "records Video (exQuietNet [] (videoRequest exState ''Jane Doe'')) = []"
    by (simp_all add: succeeds_def records_def exQuietNet_def ok_def)
  have sl: "shotlist exState = [exJane, exJohn]" by (simp add: exState_def)
  have loop: "snd (searchLoop exState exNet [] [] (shotlist exState)) = Inr ?rs"
    by (simp add: sl searchGettyVideos_def searchGettyPhotos_def exNet_def ok_def topFive_def
        Let_def)
  note t = search_one_result_per_entity[OF tok, of exNet "[]" "''Jane Doe''"]
  note q = search_one_result_per_entity[OF tok, of exQuietNet "[]" "''Jane Doe''"]
  from t loop have stored: "gettyResults (snd (handleSearchGetty exState exNet [])) = ?rs"
    by blast
  from t exNet_succeeds have "map person (gettyResults (snd (handleSearchGetty exState exNet [])))
      = shotlist exState" and "currentStep (snd (handleSearchGetty exState exNet [])) = 4"
    by blast+
  moreover from t exNet_succeeds none
  have "snd (searchGettyPhotos exState exNet [] ''Jane Doe'') = Inr []" by blast
  moreover from q quiet
  have "snd (searchGettyVideos exState exQuietNet [] ''Jane Doe'') = Inr []" by blast
  ultimately show ?thesis using tok exNet_succeeds none sl loop stored quiet by simp
qed

section \<open>A failing provider call\<close>

lemma searchLoop_append:
  "searchLoop st net log acc (xs @ ys) =
     (case searchLoop st net log acc xs of
        (log1, Inl msg) \<Rightarrow> (log1, Inl msg)
      | (log1, Inr rs) \<Rightarrow> searchLoop st net log1 rs ys)"
proof (induction xs arbitrary: log acc)
  case Nil
  then show ?case by simp
next
  case (Cons x xs)
  then show ?case
    by (simp split: prod.splits sum.splits)
qed

lemma searchGettyVideos_status:
  assumes "net log (videoRequest st term) = Resolved r" "\<not> ok r"
  shows "searchGettyVideos st net log term =
     (log @ [videoRequest st term], Inl (''Getty video search failed: '' @ showNat (status r)))"
  using assms by (simp add: searchGettyVideos_def Let_def)

lemma searchGettyPhotos_status:
  assumes "net log (photoRequest st term) = Resolved r" "\<not> ok r"
  shows "searchGettyPhotos st net log term =
     (log @ [photoRequest st term], Inl (''Getty photo search failed: '' @ showNat (status r)))"
  using assms by (simp add: searchGettyPhotos_def Let_def)

text \<open>
  Claim C8, as amended. Suppose a token is held, the searches for the entities
  before \<open>p\<close> have completed, and the video call for \<open>p\<close>, or after a successful
  video call the photo call for \<open>p\<close>, returns a non-success status. Then the
  operation ends with the error message that names the kind of search and the
  status, and only the status, of the response. The trace ends with the failing
  request, so no request is made for the remaining entities, and the state is the
  one before the search except for the error and the loading flag: no result set
  is stored and the step counter is unchanged.
\<close>

theorem search_failure_aborts:
  assumes tok: "\<not> tokenMissing (accessToken st)"
    and split: "shotlist st = earlier @ p # rest"
    and pre: "searchLoop st net log [] earlier = (log1, Inr rs1)"
  shows "(net log1 (videoRequest st (name p)) = Resolved r \<and> \<not> ok r \<longrightarrow>
            handleSearchGetty st net log =
              (log1 @ [videoRequest st (name p)],
               st\<lparr> isLoading := False,
                   error := ''Getty video search failed: '' @ showNat (status r) \<rparr>))
       \<and> (succeeds (net log1 (videoRequest st (name p)))
            \<and> net (log1 @ [videoRequest st (name p)]) (photoRequest st (name p)) = Resolved r
            \<and> \<not> ok r \<longrightarrow>
            handleSearchGetty st net log =
              (log1 @ [videoRequest st (name p), photoRequest st (name p)],
               st\<lparr> isLoading := False,
                   error := ''Getty photo search failed: '' @ showNat (status r) \<rparr>))"
proof (intro conjI impI)
  assume a: "net log1 (videoRequest st (name p)) = Resolved r \<and> \<not> ok r"
  then have "searchLoop st net log1 rs1 (p # rest) =
      (log1 @ [videoRequest st (name p)], Inl (''Getty video search failed: '' @ showNat (status r)))"
    by (simp add: searchGettyVideos_status)
  then show "handleSearchGetty st net log =
              (log1 @ [videoRequest st (name p)],
               st\<lparr> isLoading := False,
                   error := ''Getty video search failed: '' @ showNat (status r) \<rparr>)"
    using tok pre by (simp add: handleSearchGetty_def split searchLoop_append)
next
  assume a: "succeeds (net log1 (videoRequest st (name p)))
            \<and> net (log1 @ [videoRequest st (name p)]) (photoRequest st (name p)) = Resolved r
            \<and> \<not> ok r"
  then have "searchLoop st net log1 rs1 (p # rest) =
      (log1 @ [videoRequest st (name p), photoRequest st (name p)],
       Inl (''Getty photo search failed: '' @ showNat (status r)))"
    by (simp add: searchGettyVideos_ok searchGettyPhotos_status)
  then show "handleSearchGetty st net log =
              (log1 @ [videoRequest st (name p), photoRequest st (name p)],
               st\<lparr> isLoading := False,
                   error := ''Getty photo search failed: '' @ showNat (status r) \<rparr>)"
    using tok pre by (simp add: handleSearchGetty_def split searchLoop_append)
qed

theorem search_failure_aborts_witness:
  "\<not> tokenMissing (accessToken exState)
   \<and> shotlist exState = [exJane] @ exJohn # []
   \<and> exNetFailAt 2 ''quota'' [videoRequest exState ''Jane Doe'', photoRequest exState ''Jane Doe'']
        (videoRequest exState (name exJohn)) = Resolved \<lparr> status = 503, body = ErrorPayload ''quota'' \<rparr>
   \<and> \<not> ok \<lparr> status = 503, body = ErrorPayload ''quota'' \<rparr>
   \<and> handleSearchGetty exState (exNetFailAt 2 ''quota'') [] =
       ([videoRequest exState ''Jane Doe'', photoRequest exState ''Jane Doe'',
         videoRequest exState ''John Roe''],
        exState\<lparr> isLoading := False, error := ''Getty video search failed: 503'' \<rparr>)
   \<and> succeeds (exNetFailAt 3 ''quota''
        [videoRequest exState ''Jane Doe'', photoRequest exState ''Jane Doe'']
        (videoRequest exState (name exJohn)))
   \<and> handleSearchGetty exState (exNetFailAt 3 ''quota'') [] =
       ([videoRequest exState ''Jane Doe'', photoRequest exState ''Jane Doe'',
         videoRequest exState ''John Roe'', photoRequest exState ''John Roe''],
        exState\<lparr> isLoading := False, error := ''Getty photo search failed: 503'' \<rparr>)"
proof -
  let ?log1 = "[videoRequest exState ''Jane Doe'', photoRequest exState ''Jane Doe'']"
  let ?r = "\<lparr> status = 503, body = ErrorPayload ''quota'' \<rparr>"
  have tok: "\<not> tokenMissing (accessToken exState)"
    by (simp add: tokenMissing_def exState_def)
  have split: "shotlist exState = [exJane] @ exJohn # []"
    by (simp add: exState_def)
  have pre: "searchLoop exState (exNetFailAt 2 ''quota'') [] [] [exJane]
      = (?log1, Inr [\<lparr> person = exJane, videos = [normalize exRecord], photos = [] \<rparr>])"
    by (simp add: searchGettyVideos_def searchGettyPhotos_def exNetFailAt_def ok_def topFive_def
        exJane_def Let_def)
  have fail: "exNetFailAt 2 ''quota'' ?log1 (videoRequest exState (name exJohn)) = Resolved ?r"
    by (simp add: exNetFailAt_def)
  have nok: "\<not> ok ?r" by (simp add: ok_def)
  have video: "handleSearchGetty exState (exNetFailAt 2 ''quota'') [] =
       ([videoRequest exState ''Jane Doe'', photoRequest exState ''Jane Doe'',
         videoRequest exState ''John Roe''],
        exState\<lparr> isLoading := False, error := ''Getty video search failed: 503'' \<rparr>)"
    using search_failure_aborts[OF tok split pre, of ?r] fail nok
    by (simp add: digitChar_def exJohn_def)
  have pre3: "searchLoop exState (exNetFailAt 3 ''quota'') [] [] [exJane]
      = (?log1, Inr [\<lparr> person = exJane, videos = [normalize exRecord], photos = [] \<rparr>])"
    by (simp add: searchGettyVideos_def searchGettyPhotos_def exNetFailAt_def ok_def topFive_def
        exJane_def Let_def)
  have ok3: "succeeds (exNetFailAt 3 ''quota'' ?log1 (videoRequest exState (name exJohn)))"
    by (simp add: succeeds_def exNetFailAt_def ok_def)
  have fail3: "exNetFailAt 3 ''quota'' (?log1 @ [videoRequest exState (name exJohn)])
      (photoRequest exState (name exJohn)) = Resolved ?r"
    by (simp add: exNetFailAt_def)
  have photo: "handleSearchGetty exState (exNetFailAt 3 ''quota'') [] =
       ([videoRequest exState ''Jane Doe'', photoRequest exState ''Jane Doe'',
         videoRequest exState ''John Roe'', photoRequest exState ''John Roe''],
        exState\<lparr> isLoading := False, error := ''Getty photo search failed: 503'' \<rparr>)"
    using search_failure_aborts[OF tok split pre3, of ?r] ok3 fail3 nok
    by (simp add: digitChar_def exJohn_def)
  from tok split fail nok video ok3 photo show ?thesis by blast
qed

text \<open>
  The claim as stated fails in that the payload of the provider is not
  propagated: two failures with the same status and different payloads leave the
  same state, whose error message holds the status alone.
\<close>

theorem search_failure_payload_counterexample:
  "exNetFailAt 0 ''quota exceeded'' [] (videoRequest exState ''Jane Doe'')
      = Resolved \<lparr> status = 503, body = ErrorPayload ''quota exceeded'' \<rparr>
   \<and> exNetFailAt 0 ''invalid token'' [] (videoRequest exState ''Jane Doe'')
      = Resolved \<lparr> status = 503, body = ErrorPayload ''invalid token'' \<rparr>
   \<and> snd (handleSearchGetty exState (exNetFailAt 0 ''quota exceeded'') [])
      = exState\<lparr> isLoading := False, error := ''Getty video search failed: 503'' \<rparr>
   \<and> snd (handleSearchGetty exState (exNetFailAt 0 ''invalid token'') [])
      = exState\<lparr> isLoading := False, error := ''Getty video search failed: 503'' \<rparr>"
  by (simp add: handleSearchGetty_def searchGettyVideos_def exNetFailAt_def ok_def
      tokenMissing_def exState_def exJane_def digitChar_def Let_def)

section \<open>The search phrase\<close>

lemma phraseOf_requests:
  "phraseOf (videoRequest st term) = Some (buildPhrase st term)"
  "phraseOf (photoRequest st term) = Some (buildPhrase st term)"
  by (simp_all add: phraseOf_def videoRequest_def photoRequest_def searchParams_def Let_def)

lemma fst_searchGettyVideos: "fst (searchGettyVideos st net log term) = log @ [videoRequest st term]"
  by (simp add: searchGettyVideos_def Let_def)

lemma fst_searchGettyPhotos: "fst (searchGettyPhotos st net log term) = log @ [photoRequest st term]"
  by (simp add: searchGettyPhotos_def Let_def)

lemma searchLoop_log:
  "set (fst (searchLoop st net log acc ps))
     \<subseteq> set log \<union> (\<lambda>p. videoRequest st (name p)) ` set ps \<union> (\<lambda>p. photoRequest st (name p)) ` set ps"
proof (induction ps arbitrary: log acc)
  case Nil
  then show ?case by simp
next
  case (Cons p ps)
  obtain l1 r1 where v: "searchGettyVideos st net log (name p) = (l1, r1)" by fastforce
  then have l1: "l1 = log @ [videoRequest st (name p)]"
    using fst_searchGettyVideos[of st net log "name p"] by simp
  obtain l2 r2 where ph: "searchGettyPhotos st net l1 (name p) = (l2, r2)" by fastforce
  then have l2: "l2 = l1 @ [photoRequest st (name p)]"
    using fst_searchGettyPhotos[of st net l1 "name p"] by simp
  show ?case
  proof (cases r1)
    case (Inl e)
    with v l1 show ?thesis by auto
  next
    case vs: (Inr vs)
    show ?thesis
    proof (cases r2)
      case (Inl e)
      with v ph vs l1 l2 show ?thesis by auto
    next
      case (Inr phs)
      with v ph vs have "searchLoop st net log acc (p # ps)
         = searchLoop st net l2 (acc @ [\<lparr> person = p, videos = vs, photos = phs \<rparr>]) ps"
        by simp
      with Cons.IH[of l2 "acc @ [\<lparr> person = p, videos = vs, photos = phs \<rparr>]"] l1 l2
      show ?thesis by auto
    qed
  qed
qed

lemma handleSearchGetty_log:
  "set (fst (handleSearchGetty st net []))
     \<subseteq> (\<lambda>p. videoRequest st (name p)) ` set (shotlist st)
       \<union> (\<lambda>p. photoRequest st (name p)) ` set (shotlist st)"
proof (cases "tokenMissing (accessToken st)")
  case True
  then show ?thesis by (simp add: handleSearchGetty_def)
next
  case False
  then have "fst (handleSearchGetty st net []) = fst (searchLoop st net [] [] (shotlist st))"
    by (simp add: handleSearchGetty_def split: prod.splits sum.splits)
  then show ?thesis using searchLoop_log[of st net "[]" "[]" "shotlist st"] by simp
qed

lemma requests_ignore_shotlist:
  "videoRequest (st\<lparr> shotlist := ps \<rparr>) term = videoRequest st term"
  "photoRequest (st\<lparr> shotlist := ps \<rparr>) term = photoRequest st term"
  by (simp_all add: videoRequest_def photoRequest_def searchParams_def buildPhrase_def)

lemma helpers_ignore_shotlist:
  "searchGettyVideos (st\<lparr> shotlist := ps \<rparr>) net log term = searchGettyVideos st net log term"
  "searchGettyPhotos (st\<lparr> shotlist := ps \<rparr>) net log term = searchGettyPhotos st net log term"
  by (simp_all add: searchGettyVideos_def searchGettyPhotos_def requests_ignore_shotlist)

lemma searchLoop_ignores_searchTerm:
  "fst (searchLoop (st\<lparr> shotlist := qs \<rparr>) net log acc (map (\<lambda>p. p\<lparr> searchTerm := f p \<rparr>) ps))
     = fst (searchLoop st net log acc' ps)"
proof (induction ps arbitrary: log acc acc')
  case Nil
  then show ?case by simp
next
  case (Cons p ps)
  obtain l1 r1 where v: "searchGettyVideos st net log (name p) = (l1, r1)" by fastforce
  obtain l2 r2 where ph: "searchGettyPhotos st net l1 (name p) = (l2, r2)" by fastforce
  show ?case
  proof (cases r1)
    case (Inl e)
    with v show ?thesis by (simp add: helpers_ignore_shotlist)
  next
    case vs: (Inr vs)
    show ?thesis
    proof (cases r2)
      case (Inl e)
      with v vs ph show ?thesis by (simp add: helpers_ignore_shotlist)
    next
      case (Inr phs)
      with v vs ph Cons.IH show ?thesis by (simp add: helpers_ignore_shotlist)
    qed
  qed
qed

lemma handleSearchGetty_ignores_searchTerm:
  "fst (handleSearchGetty (st\<lparr> shotlist := map (\<lambda>p. p\<lparr> searchTerm := f p \<rparr>) (shotlist st) \<rparr>) net log)
     = fst (handleSearchGetty st net log)"
proof (cases "tokenMissing (accessToken st)")
  case True
  then show ?thesis by (simp add: handleSearchGetty_def)
next
  case False
  have "fst (handleSearchGetty st' net log) = fst (searchLoop st' net log [] (shotlist st'))"
    if "\<not> tokenMissing (accessToken st')" for st'
    using that by (simp add: handleSearchGetty_def split: prod.splits sum.splits)
  from this[of st] this[of "st\<lparr> shotlist := map (\<lambda>p. p\<lparr> searchTerm := f p \<rparr>) (shotlist st) \<rparr>"] False
  show ?thesis by (simp add: searchLoop_ignores_searchTerm)
qed

lemma searchLoop_trace_ok:
  assumes all: "\<forall>log req. succeeds (net log req)"
  shows "fst (searchLoop st net log acc ps) = log @ entityRequests st ps"
proof (induction ps arbitrary: log acc)
  case Nil
  then show ?case by (simp add: entityRequests_def)
next
  case (Cons p ps)
  let ?v = "videoRequest st (name p)" and ?p = "photoRequest st (name p)"
  let ?r = "\<lparr> person = p,
               videos = map normalize (take 5 (records Video (net log ?v))),
               photos = map normalize (take 5 (records Photo (net (log @ [?v]) ?p))) \<rparr>"
  have "searchLoop st net log acc (p # ps) = searchLoop st net (log @ [?v] @ [?p]) (acc @ [?r]) ps"
    using all by (simp add: searchGettyVideos_ok searchGettyPhotos_ok)
  with Cons.IH[of "log @ [?v] @ [?p]" "acc @ [?r]"] show ?case
    by (simp add: entityRequests_def)
qed

lemma searchLoop_trace_prefix:
  "\<exists>k. (ps \<noteq> [] \<longrightarrow> 0 < k)
       \<and> fst (searchLoop st net log acc ps) = log @ take k (entityRequests st ps)"
proof (induction ps arbitrary: log acc)
  case Nil
  then show ?case by (simp add: entityRequests_def)
next
  case (Cons p ps)
  let ?v = "videoRequest st (name p)" and ?p = "photoRequest st (name p)"
  have er: "entityRequests st (p # ps) = ?v # ?p # entityRequests st ps"
    by (simp add: entityRequests_def)
  obtain l1 r1 where v: "searchGettyVideos st net log (name p) = (l1, r1)" by fastforce
  then have l1: "l1 = log @ [?v]"
    using fst_searchGettyVideos[of st net log "name p"] by simp
  obtain l2 r2 where ph: "searchGettyPhotos st net l1 (name p) = (l2, r2)" by fastforce
  then have l2: "l2 = log @ [?v, ?p]"
    using fst_searchGettyPhotos[of st net l1 "name p"] l1 by simp
  show ?case
  proof (cases r1)
    case (Inl e)
    with v l1 have "fst (searchLoop st net log acc (p # ps)) = log @ take 1 (entityRequests st (p # ps))"
      by (simp add: er)
    then show ?thesis by (intro exI[of _ 1]) simp
  next
    case vs: (Inr vs)
    show ?thesis
    proof (cases r2)
      case (Inl e)
      with v vs ph l2
      have "fst (searchLoop st net log acc (p # ps)) = log @ take 2 (entityRequests st (p # ps))"
        by (simp add: er)
      then show ?thesis by (intro exI[of _ 2]) simp
    next
      case (Inr phs)
      let ?acc = "acc @ [\<lparr> person = p, videos = vs, photos = phs \<rparr>]"
      from v vs ph Inr have step: "searchLoop st net log acc (p # ps) = searchLoop st net l2 ?acc ps"
        by simp
      from Cons.IH[of l2 ?acc] obtain k where
        k: "fst (searchLoop st net l2 ?acc ps) = l2 @ take k (entityRequests st ps)" by blast
      have "fst (searchLoop st net log acc (p # ps))
          = log @ take (Suc (Suc k)) (entityRequests st (p # ps))"
        using k unfolding step l2 er by simp
      then show ?thesis by (intro exI[of _ "Suc (Suc k)"]) simp
    qed
  qed
qed

lemma handleSearchGetty_trace:
  assumes tok: "\<not> tokenMissing (accessToken st)"
  shows "fst (handleSearchGetty st net log) = fst (searchLoop st net log [] (shotlist st))"
  using tok by (simp add: handleSearchGetty_def split: prod.splits sum.splits)

lemma phraseOf_entityRequests:
  "map phraseOf (entityRequests st ps)
     = concat (map (\<lambda>p. [Some (buildPhrase st (name p)), Some (buildPhrase st (name p))]) ps)"
  by (induction ps) (simp_all add: entityRequests_def phraseOf_requests)

text \<open>
  Claim C9. The phrase of a video request and of a photo request is the term
  given, followed by \<open>PMCARC\<close> after a space exactly when phrase augmentation is
  on. When a token is held and every call succeeds, the requests a search sends
  are exactly, for each entity in the order of the list, the video request and
  then the photo request built from the name of the entity, so the phrases that
  go out are the names, augmented or not, each once for the video and once for
  the photo search. Whatever the provider answers, the requests sent are a
  prefix of that sequence, not empty when there is an entity. The requests do not
  depend on the \<open>searchTerm\<close> of the entities: replacing every search term by
  any other leaves the trace unchanged.
\<close>

theorem search_phrase_is_name:
  "phraseOf (videoRequest st term) = Some (if usePMCARC st then term @ '' PMCARC'' else term)
   \<and> phraseOf (photoRequest st term) = Some (if usePMCARC st then term @ '' PMCARC'' else term)
   \<and> map phraseOf (entityRequests st (shotlist st))
       = concat (map (\<lambda>p. [Some (if usePMCARC st then name p @ '' PMCARC'' else name p),
                             Some (if usePMCARC st then name p @ '' PMCARC'' else name p)])
                  (shotlist st))
   \<and> (\<not> tokenMissing (accessToken st) \<and> (\<forall>log req. succeeds (net log req)) \<longrightarrow>
        fst (handleSearchGetty st net log) = log @ entityRequests st (shotlist st))
   \<and> (\<not> tokenMissing (accessToken st) \<longrightarrow>
        (\<exists>k. (shotlist st \<noteq> [] \<longrightarrow> 0 < k)
           \<and> fst (handleSearchGetty st net log) = log @ take k (entityRequests st (shotlist st))))
   \<and> (\<forall>request \<in> set (fst (handleSearchGetty st net [])).
        \<exists>p \<in> set (shotlist st).
          (request = videoRequest st (name p) \<or> request = photoRequest st (name p))
          \<and> phraseOf request = Some (if usePMCARC st then name p @ '' PMCARC'' else name p))
   \<and> fst (handleSearchGetty
             (st\<lparr> shotlist := map (\<lambda>p. p\<lparr> searchTerm := f p \<rparr>) (shotlist st) \<rparr>) net log)
       = fst (handleSearchGetty st net log)"
proof (intro conjI ballI impI)
  fix request assume "request \<in> set (fst (handleSearchGetty st net []))"
  with handleSearchGetty_log[of st net]
  obtain p where "p \<in> set (shotlist st)"
    "request = videoRequest st (name p) \<or> request = photoRequest st (name p)"
    by auto
  then show "\<exists>p \<in> set (shotlist st).
          (request = videoRequest st (name p) \<or> request = photoRequest st (name p))
          \<and> phraseOf request = Some (if usePMCARC st then name p @ '' PMCARC'' else name p)"
    by (auto simp: phraseOf_requests buildPhrase_def intro!: bexI[of _ p])
next
  assume "\<not> tokenMissing (accessToken st) \<and> (\<forall>log req. succeeds (net log req))"
  then show "fst (handleSearchGetty st net log) = log @ entityRequests st (shotlist st)"
    by (simp add: handleSearchGetty_trace searchLoop_trace_ok)
next
  assume "\<not> tokenMissing (accessToken st)"
  then show "\<exists>k. (shotlist st \<noteq> [] \<longrightarrow> 0 < k)
           \<and> fst (handleSearchGetty st net log) = log @ take k (entityRequests st (shotlist st))"
    using searchLoop_trace_prefix[of "shotlist st" st net log "[]"]
    by (simp add: handleSearchGetty_trace)
next
  show "map phraseOf (entityRequests st (shotlist st))
       = concat (map (\<lambda>p. [Some (if usePMCARC st then name p @ '' PMCARC'' else name p),
                             Some (if usePMCARC st then name p @ '' PMCARC'' else name p)])
                  (shotlist st))"
    by (simp add: phraseOf_entityRequests buildPhrase_def)
qed (simp_all add: phraseOf_requests buildPhrase_def handleSearchGetty_ignores_searchTerm)

theorem search_phrase_is_name_witness:
  "usePMCARC exState \<and> \<not> tokenMissing (accessToken exState)
   \<and> (\<forall>log req. succeeds (exNet log req))
   \<and> phraseOf (videoRequest exState ''Jane Doe'') = Some ''Jane Doe PMCARC''
   \<and> phraseOf (photoRequest exState ''Jane Doe'') = Some ''Jane Doe PMCARC''
   \<and> phraseOf (videoRequest (exState\<lparr> usePMCARC := False \<rparr>) ''Jane Doe'') = Some ''Jane Doe''
   \<and> phraseOf (photoRequest (exState\<lparr> usePMCARC := False \<rparr>) ''Jane Doe'') = Some ''Jane Doe''
   \<and> fst (handleSearchGetty exState exNet [])
       = [videoRequest exState ''Jane Doe'', photoRequest exState ''Jane Doe'',
          videoRequest exState ''John Roe'', photoRequest exState ''John Roe'']
   \<and> map phraseOf (fst (handleSearchGetty exState exNet []))
       = [Some ''Jane Doe PMCARC'', Some ''Jane Doe PMCARC'',
          Some ''John Roe PMCARC'', Some ''John Roe PMCARC'']
   \<and> (\<exists>k. 0 < k \<and> fst (handleSearchGetty exState (exNetFailAt 0 ''quota'') [])
          = take k (entityRequests exState (shotlist exState)))
   \<and> fst (handleSearchGetty
        (exState\<lparr> shotlist := map (\<lambda>p. p\<lparr> searchTerm := ''anything'' \<rparr>) (shotlist exState) \<rparr>)
        exNet [])
       = fst (handleSearchGetty exState exNet [])"
proof -
  have use: "usePMCARC exState" "\<not> usePMCARC (exState\<lparr> usePMCARC := False \<rparr>)"
    by (simp_all add: exState_def)
  have tok: "\<not> tokenMissing (accessToken exState)"
    by (simp add: tokenMissing_def exState_def)
  have sl: "shotlist exState = [exJane, exJohn]" by (simp add: exState_def)
  have names: "name exJane = ''Jane Doe''" "name exJohn = ''John Roe''"
    by (simp_all add: exJane_def exJohn_def)
  note t = search_phrase_is_name[of exState "''Jane Doe''" exNet "[]" "\<lambda>p. ''anything''"]
  note off = search_phrase_is_name[of "exState\<lparr> usePMCARC := False \<rparr>" "''Jane Doe''" exNet "[]"
      "\<lambda>p. ''anything''"]
  note quota = search_phrase_is_name[of exState "''Jane Doe''" "exNetFailAt 0 ''quota''" "[]"
      "\<lambda>p. ''anything''"]
  have c1: "phraseOf (videoRequest exState ''Jane Doe'') = Some ''Jane Doe PMCARC''"
    and c2: "phraseOf (photoRequest exState ''Jane Doe'') = Some ''Jane Doe PMCARC''"
    using t use by simp_all
  have o1: "phraseOf (videoRequest (exState\<lparr> usePMCARC := False \<rparr>) ''Jane Doe'') = Some ''Jane Doe''"
    and o2: "phraseOf (photoRequest (exState\<lparr> usePMCARC := False \<rparr>) ''Jane Doe'') = Some ''Jane Doe''"
    using off use by simp_all
  have trace: "fst (handleSearchGetty exState exNet []) = entityRequests exState (shotlist exState)"
    using t tok exNet_succeeds by simp
  then have c3: "fst (handleSearchGetty exState exNet [])
       = [videoRequest exState ''Jane Doe'', photoRequest exState ''Jane Doe'',
          videoRequest exState ''John Roe'', photoRequest exState ''John Roe'']"
    by (simp add: entityRequests_def sl names)
  have "map phraseOf (entityRequests exState (shotlist exState))
       = [Some ''Jane Doe PMCARC'', Some ''Jane Doe PMCARC'',
          Some ''John Roe PMCARC'', Some ''John Roe PMCARC'']"
    using t use by (simp add: sl names)
  then have c4: "map phraseOf (fst (handleSearchGetty exState exNet []))
       = [Some ''Jane Doe PMCARC'', Some ''Jane Doe PMCARC'',
          Some ''John Roe PMCARC'', Some ''John Roe PMCARC'']"
    unfolding trace .
  have c5: "\<exists>k. 0 < k \<and> fst (handleSearchGetty exState (exNetFailAt 0 ''quota'') [])
          = take k (entityRequests exState (shotlist exState))"
    using quota tok sl by auto
  have c6: "fst (handleSearchGetty
        (exState\<lparr> shotlist := map (\<lambda>p. p\<lparr> searchTerm := ''anything'' \<rparr>) (shotlist exState) \<rparr>)
        exNet [])
       = fst (handleSearchGetty exState exNet [])"
    using t by blast
  from use(1) tok exNet_succeeds c1 c2 o1 o2 c3 c4 c5 c6 show ?thesis by blast
qed

section \<open>Normalization of provider records\<close>

lemma orEmpty_renditionUri: "orEmpty (renditionUri sizes nm) = renditionNamed sizes nm"
  by (auto simp: orEmpty_def jsOr_def truthy_def renditionUri_def renditionNamed_def
      split: option.splits)

lemma orEmpty_jsOr:
  "orEmpty (jsOr a b) = (if orEmpty a \<noteq> [] then orEmpty a else orEmpty b)"
  by (auto simp: orEmpty_def jsOr_def truthy_def split: option.splits)

text \<open>
  Claim C6, as amended. Normalization maps the first five records, in provider
  order, to media items; an absent record list gives none. The thumbnail and
  preview URLs are the uris of the renditions named \<open>thumb\<close> and \<open>preview\<close>,
  and the empty string when the rendition is missing. The comp URL is the uri of
  the rendition named \<open>comp\<close> when there is one with a non-empty uri, and
  otherwise falls back to the uri of the \<open>preview\<close> rendition, or to the empty
  string. A successful video or photo search returns exactly these items.
\<close>

theorem normalization_top_five:
  "topFive (Some rs) = map normalize (take 5 rs)
   \<and> topFive None = []
   \<and> gm_id (normalize v) = rec_id v \<and> title (normalize v) = rec_title v
   \<and> dateCreated (normalize v) = date_created v
   \<and> thumbnailUrl (normalize v) = renditionNamed (display_sizes v) ''thumb''
   \<and> previewUrl (normalize v) = renditionNamed (display_sizes v) ''preview''
   \<and> compUrl (normalize v) =
       (if renditionNamed (display_sizes v) ''comp'' \<noteq> []
        then renditionNamed (display_sizes v) ''comp''
        else renditionNamed (display_sizes v) ''preview'')
   \<and> (succeeds (net log (videoRequest st term)) \<longrightarrow>
        snd (searchGettyVideos st net log term) =
          Inr (map normalize (take 5 (records Video (net log (videoRequest st term))))))
   \<and> (succeeds (net log (photoRequest st term)) \<longrightarrow>
        snd (searchGettyPhotos st net log term) =
          Inr (map normalize (take 5 (records Photo (net log (photoRequest st term))))))"
  by (simp add: topFive_def normalize_def orEmpty_renditionUri orEmpty_jsOr
      searchGettyVideos_ok searchGettyPhotos_ok)

theorem normalization_top_five_witness:
  "succeeds (exNet [] (videoRequest exState ''Jane Doe''))
   \<and> succeeds (exNet [] (photoRequest exState ''Jane Doe''))
   \<and> snd (searchGettyVideos exState exNet [] ''Jane Doe'') = Inr [normalize exRecord]
   \<and> snd (searchGettyPhotos exState exNet [] ''Jane Doe'') = Inr []
   \<and> compUrl (normalize exRecord) = ''c101'' \<and> thumbnailUrl (normalize exRecord) = ''t101''
   \<and> previewUrl (normalize exRecord) = ''p101''"
proof -
  have v: "succeeds (exNet [] (videoRequest exState ''Jane Doe''))"
    and p: "succeeds (exNet [] (photoRequest exState ''Jane Doe''))"
    using exNet_succeeds by simp_all
  have rv: "records Video (exNet [] (videoRequest exState ''Jane Doe'')) = [exRecord]"
    and rp: "records Photo (exNet [] (photoRequest exState ''Jane Doe'')) = []"
    by (simp_all add: records_def exNet_def)
  have rn: "renditionNamed (display_sizes exRecord) ''comp'' = ''c101''"
    "renditionNamed (display_sizes exRecord) ''thumb'' = ''t101''"
    "renditionNamed (display_sizes exRecord) ''preview'' = ''p101''"
    by (simp_all add: renditionNamed_def exRecord_def)
  from normalization_top_five[of "[exRecord]" exRecord exNet "[]" exState "''Jane Doe''"] v p rv rp rn
  show ?thesis by simp
qed

text \<open>
  The claim as stated fails for a record whose \<open>comp\<close> rendition exists with an
  empty uri: the comp URL is then the uri of the \<open>preview\<close> rendition, not the
  uri of the \<open>comp\<close> rendition.
\<close>

theorem normalization_comp_counterexample:
  "List.find (\<lambda>d. ds_name d = ''comp'') [\<lparr> ds_name = ''comp'', uri = [] \<rparr>,
                                           \<lparr> ds_name = ''preview'', uri = ''p303'' \<rparr>]
     = Some \<lparr> ds_name = ''comp'', uri = [] \<rparr>
   \<and> display_sizes exEmptyComp = Some [\<lparr> ds_name = ''comp'', uri = [] \<rparr>,
                                        \<lparr> ds_name = ''preview'', uri = ''p303'' \<rparr>]
   \<and> compUrl (normalize exEmptyComp) = ''p303''"
  by (simp add: normalize_def exEmptyComp_def renditionUri_def orEmpty_def jsOr_def truthy_def)

section \<open>Rows of the export\<close>

lemma foldl_appendRow:
  "foldl (appendRow f rs) acc items = acc @ concat (dataRows f rs items)"
  by (induction items arbitrary: acc) (auto simp: appendRow_def dataRows_def split: option.splits)

lemma find_found_iff: "List.find P xs \<noteq> None \<longleftrightarrow> (\<exists>x\<in>set xs. P x)"
  by (auto simp: find_None_iff)

lemma lookupMedia_resolves: "lookupMedia rs item \<noteq> None \<longleftrightarrow> resolves rs item"
  unfolding lookupMedia_def resolves_def mediaOf_def Let_def list_ex_iff
  by (simp add: find_found_iff del: not_None_eq)

lemma length_dataRows: "length (dataRows f rs items) = length (filter (resolves rs) items)"
proof (induction items)
  case Nil
  then show ?case by (simp add: dataRows_def)
next
  case (Cons item items)
  then show ?case
    using lookupMedia_resolves[of rs item]
    by (cases "lookupMedia rs item") (auto simp: dataRows_def)
qed

lemma escapeQuotes_doubleQuotes: "escapeQuotes s = doubleQuotes s"
  by (induction s) (simp_all add: escapeQuotes_def)

lemma csvRow_specRow: "csvRow f item m = specRow f item m"
  by (simp add: csvRow_def specRow_def escapeQuotes_doubleQuotes Let_def)

lemma lookupMedia_resolveMedia: "lookupMedia rs item = resolveMedia rs item"
  by (simp add: lookupMedia_def resolveMedia_def mediaOf_def Let_def)

lemma dataRows_resolvedRows: "dataRows f rs items = resolvedRows f rs items"
  by (induction items)
     (simp_all add: dataRows_def resolvedRows_def csvRow_specRow lookupMedia_resolveMedia
        split: option.splits)

lemma countLines_append [simp]: "countLines (a @ b) = countLines a + countLines b"
  by (simp add: countLines_def)

lemma countLines_Cons [simp]:
  "countLines (c # cs) = (if c = CHR 0x0A then Suc (countLines cs) else countLines cs)"
  by (simp add: countLines_def)

lemma countLines_Nil [simp]: "countLines [] = 0"
  by (simp add: countLines_def)

lemma countLines_lineFree: "lineFree s \<Longrightarrow> countLines s = 0"
  by (induction s) (auto simp: lineFree_def)

lemma countLines_doubleQuotes: "countLines (doubleQuotes s) = countLines s"
  by (induction s) simp_all

lemma countLines_mediaTypeStr: "countLines (mediaTypeStr t) = 0"
  by (cases t) simp_all

lemma countLines_specRow:
  assumes "lineFree (personName item)" "lineFree (gm_id m)" "lineFree (title m)"
    "lineFree (f (dateCreated m))" "lineFree (compUrl m)"
  shows "countLines (specRow f item m) = 1"
  using assms
  by (simp add: specRow_def countLines_lineFree countLines_doubleQuotes countLines_mediaTypeStr)

lemma resolveMedia_resolves: "resolveMedia rs item \<noteq> None \<longleftrightarrow> resolves rs item"
  using lookupMedia_resolves[of rs item] by (simp add: lookupMedia_resolveMedia)

lemma length_resolvedRows:
  "length (resolvedRows f rs items) = length (filter (resolves rs) items)"
  using length_dataRows[of f rs items] by (simp add: dataRows_resolvedRows)

lemma countLines_resolvedRows:
  "list_all (oneLine f rs) items \<Longrightarrow>
     countLines (concat (resolvedRows f rs items)) = length (filter (resolves rs) items)"
proof (induction items)
  case Nil
  then show ?case by (simp add: resolvedRows_def)
next
  case (Cons item items)
  then have rest: "countLines (concat (resolvedRows f rs items)) = length (filter (resolves rs) items)"
    by simp
  show ?case
  proof (cases "resolveMedia rs item")
    case None
    with resolveMedia_resolves[of rs item] have "\<not> resolves rs item" by simp
    with None rest show ?thesis by (simp add: resolvedRows_def)
  next
    case (Some m)
    with resolveMedia_resolves[of rs item] have r: "resolves rs item" by simp
    from Cons.prems Some have "countLines (specRow f item m) = 1"
      by (intro countLines_specRow) (simp_all add: oneLine_def)
    with Some r rest show ?thesis by (simp add: resolvedRows_def)
  qed
qed

lemma countLines_csvHeader: "countLines csvHeader = 1"
  by (simp add: csvHeader_def)

text \<open>
  Claim C4, as amended. The export compiler fails exactly when it is given no
  selection, and then the handler only sets the error and produces no text. For a
  non-empty ledger it does not fail: the export text is the header line followed
  by one row per selection that resolves in the result sets, in ledger order, the
  step counter is 5 and the error is left as it was. Selections that do not
  resolve contribute no row. When no exported field of a resolving selection
  contains a line feed, the text has exactly one line per resolving selection
  after the header line.
\<close>

theorem export_rows:
  "(isl (compileExport f items rs) \<longleftrightarrow> items = [])
   \<and> (selectedItems st = [] \<longrightarrow>
        handleCompileExport f st =
          st\<lparr> error := ''No items selected. Please select videos or photos to export.'' \<rparr>)
   \<and> (selectedItems st \<noteq> [] \<longrightarrow>
        exportText (handleCompileExport f st)
          = ''Person Name,Getty File ID,Media Type,Title,Date Created,Download URL'' @ [CHR 0x0A]
            @ concat (resolvedRows f (gettyResults st) (selectedItems st))
        \<and> currentStep (handleCompileExport f st) = 5
        \<and> error (handleCompileExport f st) = error st)
   \<and> length (resolvedRows f rs items) = length (filter (resolves rs) items)
   \<and> resolvedRows f rs (filter (\<lambda>item. \<not> resolves rs item) items) = []
   \<and> (selectedItems st \<noteq> [] \<and> list_all (oneLine f (gettyResults st)) (selectedItems st) \<longrightarrow>
        countLines (exportText (handleCompileExport f st))
          = Suc (length (filter (resolves (gettyResults st)) (selectedItems st))))"
proof -
  have body: "exportText (handleCompileExport f st)
      = csvHeader @ concat (resolvedRows f (gettyResults st) (selectedItems st))"
    and step: "currentStep (handleCompileExport f st) = 5"
    and err: "error (handleCompileExport f st) = error st"
    if "selectedItems st \<noteq> []"
    using that
    by (simp_all add: compileExport_def handleCompileExport_def foldl_appendRow dataRows_resolvedRows)
  have none: "resolvedRows f rs (filter (\<lambda>item. \<not> resolves rs item) items) = []"
    using length_resolvedRows[of f rs "filter (\<lambda>item. \<not> resolves rs item) items"] by simp
  have lines: "countLines (exportText (handleCompileExport f st))
          = Suc (length (filter (resolves (gettyResults st)) (selectedItems st)))"
    if "selectedItems st \<noteq> [] \<and> list_all (oneLine f (gettyResults st)) (selectedItems st)"
    using that body countLines_resolvedRows[of f "gettyResults st" "selectedItems st"]
    by (simp add: countLines_csvHeader)
  have fail: "isl (compileExport f items rs) \<longleftrightarrow> items = []"
    and empty: "selectedItems st = [] \<longrightarrow>
        handleCompileExport f st =
          st\<lparr> error := ''No items selected. Please select videos or photos to export.'' \<rparr>"
    by (simp_all add: compileExport_def handleCompileExport_def)
  from body step err none lines fail empty length_resolvedRows[of f rs items]
  show ?thesis by (simp add: csvHeader_def)
qed

theorem export_rows_witness:
  "selectedItems exState = []
   \<and> handleCompileExport (\<lambda>d. d) exState =
        exState\<lparr> error := ''No items selected. Please select videos or photos to export.'' \<rparr>
   \<and> selectedItems (exStep4\<lparr> selectedItems := exSelected @ [exStale] \<rparr>) \<noteq> []
   \<and> list_all (oneLine (\<lambda>d. d) (gettyResults (exStep4\<lparr> selectedItems := exSelected @ [exStale] \<rparr>)))
        (selectedItems (exStep4\<lparr> selectedItems := exSelected @ [exStale] \<rparr>))
   \<and> exportText (handleCompileExport (\<lambda>d. d) (exStep4\<lparr> selectedItems := exSelected @ [exStale] \<rparr>))
        = ''Person Name,Getty File ID,Media Type,Title,Date Created,Download URL'' @ [CHR 0x0A]
          @ ''Jane Doe,101,video,'' @ [CHR 0x22] @ ''Red carpet'' @ [CHR 0x22]
          @ '',2025-02-02,c101'' @ [CHR 0x0A]
          @ ''Jane Doe,202,photo,'' @ [CHR 0x22] @ ''Portrait'' @ [CHR 0x22]
          @ '',2025-02-03,c202'' @ [CHR 0x0A]
   \<and> length (filter (resolves exResults) (exSelected @ [exStale])) = 2
   \<and> countLines (exportText
        (handleCompileExport (\<lambda>d. d) (exStep4\<lparr> selectedItems := exSelected @ [exStale] \<rparr>))) = 3
   \<and> currentStep (handleCompileExport (\<lambda>d. d) (exStep4\<lparr> selectedItems := exSelected @ [exStale] \<rparr>)) = 5"
proof -
  let ?st = "exStep4\<lparr> selectedItems := exSelected @ [exStale] \<rparr>"
  have e: "selectedItems exState = []" by (simp add: exState_def)
  have ne: "selectedItems ?st \<noteq> []" by (simp add: exSelected_def)
  have gr: "gettyResults ?st = exResults" and si: "selectedItems ?st = exSelected @ [exStale]"
    by (simp_all add: exStep4_def)
  have rm: "resolveMedia exResults (newSelection 0 ''Jane Doe'' exVideo Video) = Some exVideo"
    "resolveMedia exResults (newSelection 0 ''Jane Doe'' exPhoto Photo) = Some exPhoto"
    "resolveMedia exResults exStale = None"
    by (simp_all add: resolveMedia_def mediaOf_def exStale_def newSelection_def ex_defs)
  have pn: "personName (newSelection i nm m t) = nm" for i nm m t
    by (simp add: newSelection_def)
  have fv: "gm_id exVideo = ''101''" "title exVideo = ''Red carpet''"
    "dateCreated exVideo = ''2025-02-02''" "compUrl exVideo = ''c101''"
    "gm_id exPhoto = ''202''" "title exPhoto = ''Portrait''"
    "dateCreated exPhoto = ''2025-02-03''" "compUrl exPhoto = ''c202''"
    by (simp_all add: exVideo_def exPhoto_def)
  have one: "list_all (oneLine (\<lambda>d. d) (gettyResults ?st)) (selectedItems ?st)"
    unfolding gr si
    by (simp add: oneLine_def rm exSelected_def lineFree_def pn fv)
  have rows: "concat (resolvedRows (\<lambda>d. d) exResults (exSelected @ [exStale]))
      = ''Jane Doe,101,video,'' @ [CHR 0x22] @ ''Red carpet'' @ [CHR 0x22]
          @ '',2025-02-02,c101'' @ [CHR 0x0A]
          @ ''Jane Doe,202,photo,'' @ [CHR 0x22] @ ''Portrait'' @ [CHR 0x22]
          @ '',2025-02-03,c202'' @ [CHR 0x0A]"
    by (simp add: resolvedRows_def rm exSelected_def specRow_def pn fv)
  have rs: "resolves exResults (newSelection 0 ''Jane Doe'' exVideo Video)"
    "resolves exResults (newSelection 0 ''Jane Doe'' exPhoto Photo)"
    "\<not> resolves exResults exStale"
    using rm by (simp_all flip: resolveMedia_resolves)
  have two: "length (filter (resolves exResults) (exSelected @ [exStale])) = 2"
    by (simp add: exSelected_def rs)
  note t = export_rows[of "\<lambda>d. d" "exSelected @ [exStale]" exResults exState]
  note u = export_rows[of "\<lambda>d. d" "exSelected @ [exStale]" exResults ?st]
  have c1: "handleCompileExport (\<lambda>d. d) exState =
        exState\<lparr> error := ''No items selected. Please select videos or photos to export.'' \<rparr>"
    using t e by blast
  have c2: "exportText (handleCompileExport (\<lambda>d. d) ?st)
        = ''Person Name,Getty File ID,Media Type,Title,Date Created,Download URL'' @ [CHR 0x0A]
          @ concat (resolvedRows (\<lambda>d. d) (gettyResults ?st) (selectedItems ?st))"
    and c3: "currentStep (handleCompileExport (\<lambda>d. d) ?st) = 5"
    using u ne by blast+
  have c4: "countLines (exportText (handleCompileExport (\<lambda>d. d) ?st))
      = Suc (length (filter (resolves (gettyResults ?st)) (selectedItems ?st)))"
    using u ne one by blast
  from e c1 ne one c2 c3 c4 two rows show ?thesis
    unfolding gr si by simp
qed

text \<open>
  The claim as stated fails when rows are counted in the text: a person name with
  a line feed is written unquoted, so one resolving selection gives two lines
  after the header.
\<close>

theorem export_rows_lines_counterexample:
  "selectedItems exBrokenStep4 = [newSelection 0 exBrokenName exVideo Video]
   \<and> length (filter (resolves (gettyResults exBrokenStep4)) (selectedItems exBrokenStep4)) = 1
   \<and> exportText (handleCompileExport (\<lambda>d. d) exBrokenStep4)
        = ''Person Name,Getty File ID,Media Type,Title,Date Created,Download URL'' @ [CHR 0x0A]
          @ ''Jane'' @ [CHR 0x0A]
          @ ''Doe,101,video,'' @ [CHR 0x22] @ ''Red carpet'' @ [CHR 0x22]
          @ '',2025-02-02,c101'' @ [CHR 0x0A]
   \<and> countLines (exportText (handleCompileExport (\<lambda>d. d) exBrokenStep4)) = 3"
  by (simp add: exBrokenStep4_def exBrokenName_def exState_def toggleSelection_def newSelection_def
      fileNameOf_def resolves_def mediaOf_def exVideo_def handleCompileExport_def compileExport_def
      appendRow_def lookupMedia_def csvRow_def csvHeader_def escapeQuotes_def Let_def)

section \<open>Partial success of packaging\<close>





















end
